theory Spec2Isabelle
  imports Complex_Main
begin

section \<open>The SSE frame parser (\<open>createSseParser\<close> in \<open>src/client.ts\<close>)\<close>

text \<open>
  JavaScript strings are modelled as \<^typ>\<open>string\<close>. The parser only ever compares
  characters with the line feed, the carriage return, the colon and the space, and field
  names with \<open>event\<close> and \<open>data\<close>.
\<close>

definition LF :: char where
  "LF = CHR 0x0A"

definition CR :: char where
  "CR = CHR 0x0D"

text \<open>\<open>type SseMessage = { event?: string; data?: string }\<close>; \<open>dispatch\<close> always sets \<open>data\<close>.\<close>

record sse_message =
  event :: "string option"
  data :: string

text \<open>The three closure variables of \<open>createSseParser\<close>.\<close>

record parser_state =
  buffer :: string
  eventName :: "string option"
  dataLines :: "string list"

text \<open>\<open>s.indexOf(c)\<close>: the first position of \<open>c\<close>, \<open>None\<close> where JavaScript answers \<open>-1\<close>.\<close>

fun indexOf :: "'a \<Rightarrow> 'a list \<Rightarrow> nat option" where
  "indexOf c [] = None"
| "indexOf c (x # xs) = (if x = c then Some 0 else map_option Suc (indexOf c xs))"

text \<open>\<open>parts.join(sep)\<close>.\<close>

fun join :: "string \<Rightarrow> string list \<Rightarrow> string" where
  "join sep [] = []"
| "join sep [x] = x"
| "join sep (x # y # ys) = x @ sep @ join sep (y # ys)"

text \<open>
  \<open>dispatch\<close>. The guard \<open>!eventName\<close> holds for \<open>undefined\<close> and for the empty string.
  The message emitted to \<open>onMessage\<close> is returned in a list (empty when nothing is emitted).
\<close>

definition dispatch :: "parser_state \<Rightarrow> parser_state \<times> sse_message list" where
  "dispatch st =
     (if (eventName st = None \<or> eventName st = Some []) \<and> dataLines st = [] then (st, [])
      else (st\<lparr>eventName := None, dataLines := []\<rparr>,
            [\<lparr>event = eventName st, data = join [LF] (dataLines st)\<rparr>]))"

text \<open>The body of the \<open>while (true)\<close> loop of \<open>feed\<close> once a line has been cut off the buffer.\<close>

definition process_line :: "string \<Rightarrow> parser_state \<Rightarrow> parser_state \<times> sse_message list" where
  "process_line line0 st =
     (let line = (if line0 \<noteq> [] \<and> last line0 = CR then butlast line0 else line0) in
      if line = [] then dispatch st
      else if hd line = CHR '':'' then (st, [])
      else
        let colon = indexOf (CHR '':'') line;
            field = (case colon of None \<Rightarrow> line | Some i \<Rightarrow> take i line);
            value0 = (case colon of None \<Rightarrow> [] | Some i \<Rightarrow> drop (i + 1) line);
            value = (if value0 \<noteq> [] \<and> hd value0 = CHR '' '' then tl value0 else value0)
        in if field = ''event'' then (st\<lparr>eventName := Some value\<rparr>, [])
           else if field = ''data'' then (st\<lparr>dataLines := dataLines st @ [value]\<rparr>, [])
           else (st, []))"

text \<open>The \<open>while (true)\<close> loop of \<open>feed\<close>: it returns when the buffer holds no line feed.\<close>

function feed_loop :: "parser_state \<Rightarrow> parser_state \<times> sse_message list" where
  "feed_loop st =
     (case indexOf LF (buffer st) of
        None \<Rightarrow> (st, [])
      | Some newlineIdx \<Rightarrow>
          let r = process_line (take newlineIdx (buffer st))
                    (st\<lparr>buffer := drop (newlineIdx + 1) (buffer st)\<rparr>);
              r' = feed_loop (fst r)
          in (fst r', snd r @ snd r'))"
  by pat_completeness auto
termination
proof -
  have idx: "indexOf c xs = Some i \<Longrightarrow> i < length xs" for c :: char and xs i
    by (induction xs arbitrary: i) (auto split: if_splits)
  have buf: "buffer (fst (process_line l st)) = buffer st" for l st
    by (simp add: process_line_def dispatch_def Let_def split: option.splits)
  show ?thesis
    by (relation "measure (\<lambda>st. length (buffer st))") (auto simp: buf dest: idx)
qed

declare feed_loop.simps [simp del]

definition feed :: "parser_state \<Rightarrow> string \<Rightarrow> parser_state \<times> sse_message list" where
  "feed st textChunk = feed_loop (st\<lparr>buffer := buffer st @ textChunk\<rparr>)"

text \<open>\<open>return { feed, end: dispatch }\<close>.\<close>

definition parser_end :: "parser_state \<Rightarrow> parser_state \<times> sse_message list" where
  "parser_end st = dispatch st"

text \<open>The state of a parser just created.\<close>

definition createSseParser :: parser_state where
  "createSseParser = \<lparr>buffer = [], eventName = None, dataLines = []\<rparr>"

text \<open>Feeding chunks one after the other, and a whole use of a parser: feed every chunk, then \<open>end()\<close>.\<close>

fun feed_chunks :: "parser_state \<Rightarrow> string list \<Rightarrow> parser_state \<times> sse_message list" where
  "feed_chunks st [] = (st, [])"
| "feed_chunks st (c # cs) =
     (let r = feed st c; r' = feed_chunks (fst r) cs in (fst r', snd r @ snd r'))"

definition parse_stream :: "string list \<Rightarrow> sse_message list" where
  "parse_stream chunks =
     (let r = feed_chunks createSseParser chunks in snd r @ snd (parser_end (fst r)))"


section \<open>The parser as the specification words it\<close>

text \<open>
  The specification describes the parser line by line: the text is cut into complete
  lines (each ended by a line feed, one trailing carriage return dropped), every line is a
  blank line, a comment or a field, and a blank line is a dispatch boundary. The
  definitions of this section follow those words, not the code; the refinement theorem
  compares them with \<open>feed\<close>.
\<close>

datatype sse_field = EventField string | DataField string

definition spec_strip_cr :: "string \<Rightarrow> string" where
  "spec_strip_cr l = (if l \<noteq> [] \<and> last l = CR then butlast l else l)"

text \<open>The complete lines of a text, \<open>cur\<close> being the line under way; an unterminated rest is left out.\<close>

fun spec_lines_from :: "string \<Rightarrow> string \<Rightarrow> string list" where
  "spec_lines_from cur [] = []"
| "spec_lines_from cur (c # cs) =
     (if c = LF then spec_strip_cr cur # spec_lines_from [] cs
      else spec_lines_from (cur @ [c]) cs)"

definition spec_complete_lines :: "string \<Rightarrow> string list" where
  "spec_complete_lines text = spec_lines_from [] text"

text \<open>
  The field of a non-empty line: none for a comment (first character a colon) and for a
  field name other than \<open>event\<close> and \<open>data\<close>; the name is what precedes the first colon,
  the value what follows it, less one leading space.
\<close>

definition spec_field_of :: "string \<Rightarrow> sse_field option" where
  "spec_field_of l =
     (if l \<noteq> [] \<and> hd l = CHR '':'' then None
      else
        let name = takeWhile (\<lambda>c. c \<noteq> CHR '':'') l;
            rest = dropWhile (\<lambda>c. c \<noteq> CHR '':'') l;
            v0 = (case rest of [] \<Rightarrow> [] | c # v \<Rightarrow> v);
            v = (case v0 of [] \<Rightarrow> [] | c # v' \<Rightarrow> if c = CHR '' '' then v' else v0)
        in if name = ''event'' then Some (EventField v)
           else if name = ''data'' then Some (DataField v)
           else None)"

fun event_values :: "sse_field list \<Rightarrow> string list" where
  "event_values [] = []"
| "event_values (EventField v # fs) = v # event_values fs"
| "event_values (DataField v # fs) = event_values fs"

fun data_values :: "sse_field list \<Rightarrow> string list" where
  "data_values [] = []"
| "data_values (EventField v # fs) = data_values fs"
| "data_values (DataField v # fs) = v # data_values fs"

text \<open>
  The message of the fields seen since the previous dispatch: its event is the value of the
  last \<open>event\<close> field (absent when there is none), its data the values of the \<open>data\<close>
  fields, in arrival order, joined by line feeds.
\<close>

definition spec_message :: "sse_field list \<Rightarrow> sse_message" where
  "spec_message pend =
     \<lparr>event = (if event_values pend = [] then None else Some (last (event_values pend))),
      data = join [LF] (data_values pend)\<rparr>"

text \<open>
  When a blank line dispatches. As claimed: an event name has been set or a data line has
  been accumulated. As amended: the event name last set is not empty, or a data line has
  been accumulated.
\<close>

definition claimed_boundary :: "sse_field list \<Rightarrow> bool" where
  "claimed_boundary pend = (event_values pend \<noteq> [] \<or> data_values pend \<noteq> [])"

definition amended_boundary :: "sse_field list \<Rightarrow> bool" where
  "amended_boundary pend =
     ((event_values pend \<noteq> [] \<and> last (event_values pend) \<noteq> []) \<or> data_values pend \<noteq> [])"

text \<open>
  The messages of a list of complete lines, \<open>pend\<close> being the fields since the previous
  dispatch and \<open>P\<close> telling when a blank line dispatches. A blank line that does not
  dispatch leaves the pending fields as they are.
\<close>

fun spec_messages :: "(sse_field list \<Rightarrow> bool) \<Rightarrow> sse_field list \<Rightarrow> string list \<Rightarrow> sse_message list" where
  "spec_messages P pend [] = []"
| "spec_messages P pend (l # ls) =
     (if l = [] then
        (if P pend then spec_message pend # spec_messages P [] ls
         else spec_messages P pend ls)
      else spec_messages P (pend @ (case spec_field_of l of None \<Rightarrow> [] | Some f \<Rightarrow> [f])) ls)"

text \<open>The parser's variables hold the pending fields \<open>pend\<close>.\<close>

definition pending_of :: "parser_state \<Rightarrow> sse_field list \<Rightarrow> bool" where
  "pending_of st pend \<longleftrightarrow>
     eventName st = (if event_values pend = [] then None else Some (last (event_values pend)))
     \<and> dataLines st = data_values pend"


section \<open>The abort coordinator (\<open>anySignal\<close>)\<close>

text \<open>
  \<open>anySignal\<close> returns one of its arguments or a new object and registers listeners on the
  others, so signals live in a store and are named by their position in it. A signal holds
  its \<open>aborted\<close> flag and its \<open>abort\<close> listeners; a listener is the signal of the controller
  that the callback \<open>() => controller.abort()\<close> aborts (a position outside the store stands for
  a callback without effect on signals).
\<close>

record abort_signal =
  aborted :: bool
  listeners :: "nat list"

type_synonym signal_store = "abort_signal list"

text \<open>
  \<open>controller.abort()\<close> on the signals \<open>todo\<close>, first to last: a signal not yet aborted is
  marked and its listeners run at once, in their order of registration, before the rest.
\<close>

function abort :: "nat list \<Rightarrow> signal_store \<Rightarrow> signal_store" where
  "abort [] h = h"
| "abort (i # todo) h =
     (if i < length h \<and> \<not> aborted (h ! i)
      then abort (listeners (h ! i) @ todo) (h[i := (h ! i)\<lparr>aborted := True\<rparr>])
      else abort todo h)"
  by pat_completeness auto
termination
proof -
  have less: "length (filter (\<lambda>s. \<not> aborted s) (h[i := (h ! i)\<lparr>aborted := True\<rparr>]))
              < length (filter (\<lambda>s. \<not> aborted s) h)"
    if "i < length h" "\<not> aborted (h ! i)" for h :: signal_store and i
    using that
  proof (induction h arbitrary: i)
    case Nil
    then show ?case by simp
  next
    case (Cons a h)
    show ?case
    proof (cases i)
      case 0
      with Cons.prems show ?thesis by simp
    next
      case (Suc n)
      with Cons.prems Cons.IH[of n] show ?thesis by simp
    qed
  qed
  show ?thesis
    by (relation "measures [\<lambda>(todo, h). length (filter (\<lambda>s. \<not> aborted s) h), \<lambda>(todo, h). length todo]")
       (auto simp: less)
qed

declare abort.simps [simp del]

definition new_AbortController :: "signal_store \<Rightarrow> nat \<times> signal_store" where
  "new_AbortController h = (length h, h @ [\<lparr>aborted = False, listeners = []\<rparr>])"

definition addEventListener :: "nat \<Rightarrow> nat \<Rightarrow> signal_store \<Rightarrow> signal_store" where
  "addEventListener s c h = h[s := (h ! s)\<lparr>listeners := listeners (h ! s) @ [c]\<rparr>]"

text \<open>The \<open>for (const s of present)\<close> loop: it stops at the first signal already aborted.\<close>

fun subscribe :: "nat list \<Rightarrow> nat \<Rightarrow> signal_store \<Rightarrow> signal_store" where
  "subscribe [] c h = h"
| "subscribe (s # ss) c h =
     (if aborted (h ! s) then abort [c] h
      else subscribe ss c (addEventListener s c h))"

text \<open>\<open>signals.filter(Boolean)\<close>: the signals that are not \<open>undefined\<close>.\<close>

definition present_signals :: "nat option list \<Rightarrow> nat list" where
  "present_signals signals = List.map_filter id signals"

definition anySignal :: "nat option list \<Rightarrow> signal_store \<Rightarrow> nat option \<times> signal_store" where
  "anySignal signals h =
     (let present = present_signals signals in
      if length present = 0 then (None, h)
      else if length present = 1 then (Some (present ! 0), h)
      else
        let (c, h1) = new_AbortController h
        in (Some c, subscribe present c h1))"


section \<open>JSON values\<close>

text \<open>
  What \<open>JSON.parse\<close> returns. An object keeps its members in the order of the text; a
  member read by name is the last one of that name.
\<close>

datatype json =
    JNull
  | JBool bool
  | JNum real
  | JStr string
  | JArr "json list"
  | JObj "(string \<times> json) list"

text \<open>JavaScript truthiness of a JSON value, and of a variable that may be \<open>undefined\<close>.\<close>

fun truthy :: "json \<Rightarrow> bool" where
  "truthy JNull = False"
| "truthy (JBool b) = b"
| "truthy (JNum n) = (n \<noteq> 0)"
| "truthy (JStr s) = (s \<noteq> [])"
| "truthy (JArr xs) = True"
| "truthy (JObj kvs) = True"

fun truthy_opt :: "json option \<Rightarrow> bool" where
  "truthy_opt None = False"
| "truthy_opt (Some v) = truthy v"

text \<open>\<open>(v as any).status\<close> for a value that is not \<open>null\<close>: \<open>undefined\<close> unless \<open>v\<close> is an object with that member.\<close>

fun status_of :: "json \<Rightarrow> json option" where
  "status_of (JObj kvs) = map_of (rev kvs) ''status''"
| "status_of v = None"


section \<open>Errors and responses\<close>

text \<open>
  The error classes of \<open>src/errors.ts\<close> with their fields (message, statusCode, method,
  url, responseText, validationError), and \<open>PlatformError\<close> for whatever the platform
  throws: a rejected \<open>fetch\<close>, an abort, a failed read, a body that is not JSON.
\<close>

datatype js_error =
    SeclaiError string
  | SeclaiConfigurationError string
  | SeclaiAPIStatusError string nat string string "string option"
  | SeclaiAPIValidationError string nat string string "string option" "json option"
  | PlatformError string

text \<open>
  \<open>${response.status}\<close>: a status code, a small non-negative integer, which a template
  literal prints in decimal.
\<close>

fun show_nat :: "nat \<Rightarrow> string" where
  "show_nat n = (if n < 10 then [''0123456789'' ! n]
                 else show_nat (n div 10) @ [''0123456789'' ! (n mod 10)])"

declare show_nat.simps [simp del]

text \<open>
  A \<open>Response\<close> as the function uses it: the status, the \<open>content-type\<close> header
  (\<open>None\<close> when \<open>headers.get\<close> answers \<open>null\<close>), what \<open>text()\<close> and \<open>json()\<close> settle with, and
  the body: \<open>None\<close> for a \<open>null\<close> body, otherwise the decoded chunks the reader delivers and
  how the stream ends after them.
\<close>

datatype stream_end = StreamClosed | StreamError js_error

record response =
  status :: nat
  contentType :: "string option"
  textResult :: "js_error + string"
  jsonResult :: "js_error + json"
  body :: "(string list \<times> stream_end) option"

definition ok :: "response \<Rightarrow> bool" where
  "ok r = (200 \<le> status r \<and> status r \<le> 299)"

definition safeText :: "response \<Rightarrow> string option" where
  "safeText r = (case textResult r of Inl e \<Rightarrow> None | Inr t \<Rightarrow> Some t)"

definition safeJson :: "response \<Rightarrow> json option" where
  "safeJson r = (case jsonResult r of Inl e \<Rightarrow> None | Inr j \<Rightarrow> Some j)"

definition startsWith :: "string \<Rightarrow> string \<Rightarrow> bool" where
  "startsWith s sub = (take (length sub) s = sub)"

text \<open>\<open>s.includes(sub)\<close>.\<close>

fun includes_str :: "string \<Rightarrow> string \<Rightarrow> bool" where
  "includes_str [] sub = (sub = [])"
| "includes_str (c # cs) sub = (startsWith (c # cs) sub \<or> includes_str cs sub)"

definition isJson :: "response \<Rightarrow> bool" where
  "isJson r =
     includes_str (case contentType r of None \<Rightarrow> [] | Some c \<Rightarrow> c) ''application/json''"


section \<open>The streaming run controller (\<open>runStreamingAgentAndWait\<close>)\<close>

text \<open>The parser and the two variables \<open>final\<close> and \<open>lastSeen\<close> (\<open>None\<close> for \<open>undefined\<close>).\<close>

record run_state =
  parser :: parser_state
  final :: "json option"
  lastSeen :: "json option"

definition new_run :: run_state where
  "new_run = \<lparr>parser = createSseParser, final = None, lastSeen = None\<rparr>"

text \<open>
  The callback given to \<open>createSseParser\<close>. \<open>parse\<close> is \<open>JSON.parse\<close>, \<open>None\<close> where it
  throws; \<open>!msg.data\<close> holds for the empty string.
\<close>

definition onMessage :: "(string \<Rightarrow> json option) \<Rightarrow> run_state \<Rightarrow> sse_message \<Rightarrow> run_state" where
  "onMessage parse st msg =
     (if data msg = [] then st
      else if event msg = Some ''init'' \<or> event msg = Some ''done'' then
        (case parse (data msg) of
           None \<Rightarrow> st
         | Some parsed \<Rightarrow>
             if event msg = Some ''done'' then st\<lparr>lastSeen := Some parsed, final := Some parsed\<rparr>
             else st\<lparr>lastSeen := Some parsed\<rparr>)
      else st)"

text \<open>\<open>parser.feed(chunk)\<close> and \<open>parser.end()\<close>, the callback run on each message emitted.\<close>

definition run_feed :: "(string \<Rightarrow> json option) \<Rightarrow> run_state \<Rightarrow> string \<Rightarrow> run_state" where
  "run_feed parse st chunk =
     (let r = feed (parser st) chunk in foldl (onMessage parse) (st\<lparr>parser := fst r\<rparr>) (snd r))"

definition run_end :: "(string \<Rightarrow> json option) \<Rightarrow> run_state \<Rightarrow> run_state" where
  "run_end parse st =
     (let r = parser_end (parser st) in foldl (onMessage parse) (st\<lparr>parser := fst r\<rparr>) (snd r))"

text \<open>
  \<open>while (!final) { read; if (done) break; feed }\<close> over the chunks the reader still holds.
  It returns the state and the chunks left unread, or the error of a read that fails.
  Every value the reader delivers is a byte array, an object and so truthy: the test
  \<open>if (value)\<close> always passes and each chunk is fed.
\<close>

fun read_loop :: "(string \<Rightarrow> json option) \<Rightarrow> string list \<Rightarrow> stream_end \<Rightarrow> run_state
    \<Rightarrow> js_error + run_state \<times> string list" where
  "read_loop parse [] e st =
     (if truthy_opt (final st) then Inr (st, [])
      else case e of StreamClosed \<Rightarrow> Inr (st, []) | StreamError err \<Rightarrow> Inl err)"
| "read_loop parse (c # cs) e st =
     (if truthy_opt (final st) then Inr (st, c # cs)
      else read_loop parse cs e (run_feed parse st c))"

text \<open>The three statements after \<open>parser.end()\<close>.\<close>

definition resolve :: "run_state \<Rightarrow> js_error + json" where
  "resolve st =
     (if truthy_opt (final st) then Inr (the (final st))
      else if truthy_opt (lastSeen st) \<and> truthy_opt (status_of (the (lastSeen st)))
              \<and> status_of (the (lastSeen st)) \<noteq> Some (JStr ''pending'')
           then Inr (the (lastSeen st))
      else Inl (SeclaiError ''Stream ended before receiving a 'done' event.''))"

text \<open>
  The \<open>try\<close> block, from the settled \<open>fetch\<close> on. \<open>url\<close> is \<open>url.toString()\<close>.
\<close>

definition attempt :: "(string \<Rightarrow> json option) \<Rightarrow> string \<Rightarrow> js_error + response \<Rightarrow> js_error + json" where
  "attempt parse url fetched =
     (case fetched of
        Inl err \<Rightarrow> Inl err
      | Inr response \<Rightarrow>
          if \<not> ok response then
            (let responseText = safeText response in
             if status response = 422 then
               Inl (SeclaiAPIValidationError ''Validation error'' (status response) ''POST'' url
                      responseText (safeJson response))
             else
               Inl (SeclaiAPIStatusError (''Request failed with status '' @ show_nat (status response))
                      (status response) ''POST'' url responseText))
          else if isJson response then jsonResult response
          else
            (case body response of
               None \<Rightarrow> Inl (SeclaiConfigurationError
                 ''Streaming response body is not available in this environment. Provide a fetch implementation that supports ReadableStream bodies.'')
             | Some (chunks, e) \<Rightarrow>
                 (case read_loop parse chunks e new_run of
                    Inl err \<Rightarrow> Inl err
                  | Inr (st, unread) \<Rightarrow> resolve (run_end parse st))))"

text \<open>
  The timer of \<open>setTimeout\<close>: pending, fired (its callback has set \<open>timedOut\<close>), or
  cleared. \<open>clearTimeout\<close> only changes a pending timer.
\<close>

datatype timer = TimerPending | TimerFired | TimerCleared

fun clearTimeout :: "timer \<Rightarrow> timer" where
  "clearTimeout TimerPending = TimerCleared"
| "clearTimeout t = t"

record run_outcome =
  settled :: "js_error + json"
  timeoutTimer :: timer

text \<open>
  \<open>timeoutMs\<close> is a JavaScript number: a finite one (negative and fractional ones
  included), \<open>NaN\<close> or an infinity. What the template literal \<open>${timeoutMs}\<close> prints is the
  platform's conversion of numbers to strings, a parameter \<open>toText\<close> of the model as
  \<open>JSON.parse\<close> is.
\<close>

datatype js_number = Finite real | NaN | PosInfinity | NegInfinity

text \<open>
  The whole function: \<open>try\<close>, \<open>catch\<close>, \<open>finally\<close>. \<open>timedOut\<close> is the flag as the function
  finds it when it settles, that is whether the timer has fired by then.
\<close>

definition runStreamingAgentAndWait ::
  "(string \<Rightarrow> json option) \<Rightarrow> (js_number \<Rightarrow> string) \<Rightarrow> string \<Rightarrow> js_number option
     \<Rightarrow> js_error + response \<Rightarrow> bool \<Rightarrow> run_outcome" where
  "runStreamingAgentAndWait parse toText url timeoutMsOpt fetched timedOut =
     (let timeoutMs = (case timeoutMsOpt of None \<Rightarrow> Finite 60000 | Some t \<Rightarrow> t);
          timeoutId = (if timedOut then TimerFired else TimerPending);
          res = (case attempt parse url fetched of
                   Inr v \<Rightarrow> Inr v
                 | Inl err \<Rightarrow>
                     if timedOut then
                       Inl (SeclaiError (''Timed out after '' @ toText timeoutMs
                              @ ''ms waiting for streaming agent run to complete.''))
                     else Inl err)
      in \<lparr>settled = res, timeoutTimer = clearTimeout timeoutId\<rparr>)"


section \<open>Observations on a stream, for the statements about the controller\<close>

text \<open>
  The payloads the callback decodes from a list of messages, in order: those of the
  \<open>init\<close> and \<open>done\<close> messages, and those of the \<open>done\<close> messages alone.
\<close>

definition payloads :: "(string \<Rightarrow> json option) \<Rightarrow> sse_message list \<Rightarrow> json list" where
  "payloads parse msgs =
     List.map_filter (\<lambda>m. if data m \<noteq> [] \<and> (event m = Some ''init'' \<or> event m = Some ''done'')
                          then parse (data m) else None) msgs"

definition done_payloads :: "(string \<Rightarrow> json option) \<Rightarrow> sse_message list \<Rightarrow> json list" where
  "done_payloads parse msgs =
     List.map_filter (\<lambda>m. if data m \<noteq> [] \<and> event m = Some ''done''
                          then parse (data m) else None) msgs"

definition last_opt :: "'a list \<Rightarrow> 'a option" where
  "last_opt xs = (if xs = [] then None else Some (last xs))"


text \<open>The rule of the claim for the last payload seen: its status member is present and is not \<open>pending\<close>.\<close>

definition claimed_acceptable :: "json \<Rightarrow> bool" where
  "claimed_acceptable l = (status_of l \<noteq> None \<and> status_of l \<noteq> Some (JStr ''pending''))"

text \<open>The rule as amended: its status member is truthy and is not \<open>pending\<close>.\<close>

definition acceptable :: "json \<Rightarrow> bool" where
  "acceptable l = (truthy_opt (status_of l) \<and> status_of l \<noteq> Some (JStr ''pending''))"

definition stream_ended :: js_error where
  "stream_ended = SeclaiError ''Stream ended before receiving a 'done' event.''"


text \<open>The timeout error for the budget \<open>timeoutMs\<close>, 60000 when none is given.\<close>

definition timed_out_error :: "(js_number \<Rightarrow> string) \<Rightarrow> js_number option \<Rightarrow> js_error" where
  "timed_out_error toText timeoutMsOpt =
     SeclaiError (''Timed out after ''
       @ toText (case timeoutMsOpt of None \<Rightarrow> Finite 60000 | Some t \<Rightarrow> t)
       @ ''ms waiting for streaming agent run to complete.'')"

text \<open>
  The firing of the combined signal can make the request or a read of the body reject, and
  nothing else. \<open>raised_by_transport fetched err\<close>: the error \<open>err\<close> is such a rejection,
  of the request or of the read that ends the body, and not an error the function builds
  from a response it has received.
\<close>

definition raised_by_transport :: "js_error + response \<Rightarrow> js_error \<Rightarrow> bool" where
  "raised_by_transport fetched err =
     (case fetched of
        Inl e \<Rightarrow> e = err
      | Inr r \<Rightarrow>
          (case body r of
             None \<Rightarrow> False
           | Some (cs, StreamClosed) \<Rightarrow> False
           | Some (cs, StreamError e) \<Rightarrow> e = err))"

text \<open>
  For closed examples: a success response of type \<open>text/event-stream\<close> whose body delivers
  the chunks \<open>cs\<close> and closes, and a decoder that agrees with \<open>JSON.parse\<close> on the texts
  the examples use and rejects every other text.
\<close>

definition sse_response :: "string list \<Rightarrow> response" where
  "sse_response cs = \<lparr>status = 200, contentType = Some ''text/event-stream'',
     textResult = Inr (concat cs), jsonResult = Inl (PlatformError ''SyntaxError''),
     body = Some (cs, StreamClosed)\<rparr>"

definition DQ :: char where
  "DQ = CHR 0x22"

definition status_text :: "string \<Rightarrow> string" where
  "status_text v = ''{'' @ [DQ] @ ''status'' @ [DQ] @ '':'' @ [DQ] @ v @ [DQ] @ ''}''"

definition sample_parse :: "string \<Rightarrow> json option" where
  "sample_parse s =
     (if s = status_text ''pending'' then Some (JObj [(''status'', JStr ''pending'')])
      else if s = status_text ''completed'' then Some (JObj [(''status'', JStr ''completed'')])
      else if s = status_text '''' then Some (JObj [(''status'', JStr '''')])
      else if s = ''{}'' then Some (JObj [])
      else if s = ''0'' then Some (JNum 0)
      else if s = ''1'' then Some (JNum 1)
      else if s = ''2'' then Some (JNum 2)
      else None)"


text \<open>
  For closed examples: a printer of numbers that agrees with the platform on the budgets
  the examples use, 60000 and 5.
\<close>

definition sample_text :: "js_number \<Rightarrow> string" where
  "sample_text n = (if n = Finite 5 then ''5'' else ''60000'')"


section \<open>Properties of the parser\<close>

lemma indexOf_less: "indexOf c xs = Some i \<Longrightarrow> i < length xs"
  by (induction xs arbitrary: i) (auto split: if_splits)

lemma indexOf_append: "indexOf c xs = Some i \<Longrightarrow> indexOf c (xs @ ys) = Some i"
  by (induction xs arbitrary: i) (auto split: if_splits)

lemma process_line_fst_buffer [simp]:
  "fst (process_line l (st\<lparr>buffer := b\<rparr>)) = (fst (process_line l st))\<lparr>buffer := b\<rparr>"
  by (simp add: process_line_def dispatch_def Let_def split: option.splits)

lemma process_line_snd_buffer [simp]:
  "snd (process_line l (st\<lparr>buffer := b\<rparr>)) = snd (process_line l st)"
  by (simp add: process_line_def dispatch_def Let_def split: option.splits)

lemma process_line_keeps_buffer [simp]:
  "buffer (fst (process_line l st)) = buffer st"
  by (simp add: process_line_def dispatch_def Let_def split: option.splits)

text \<open>
  Text appended to the buffer after the loop has run gives the same state and the same
  messages as the loop run once on the whole buffer.
\<close>

lemma feed_loop_append:
  "feed_loop (st\<lparr>buffer := buffer st @ y\<rparr>) =
     (let r = feed_loop st; r' = feed_loop ((fst r)\<lparr>buffer := buffer (fst r) @ y\<rparr>)
      in (fst r', snd r @ snd r'))"
proof (induction st rule: feed_loop.induct)
  case (1 st)
  show ?case
  proof (cases "indexOf LF (buffer st)")
    case None
    then show ?thesis by (simp add: feed_loop.simps[of st] Let_def)
  next
    case (Some i)
    let ?r = "process_line (take i (buffer st)) (st\<lparr>buffer := drop (i + 1) (buffer st)\<rparr>)"
    have il: "i < length (buffer st)" using Some by (rule indexOf_less)
    have IH: "feed_loop ((fst ?r)\<lparr>buffer := buffer (fst ?r) @ y\<rparr>) =
       (let r = feed_loop (fst ?r); r' = feed_loop ((fst r)\<lparr>buffer := buffer (fst r) @ y\<rparr>)
        in (fst r', snd r @ snd r'))"
      using "1.IH"[OF Some refl] by simp
    have lhs: "feed_loop (st\<lparr>buffer := buffer st @ y\<rparr>) =
       (let r' = feed_loop ((fst ?r)\<lparr>buffer := buffer (fst ?r) @ y\<rparr>)
        in (fst r', snd ?r @ snd r'))"
      using il indexOf_append[OF Some, of y]
      by (simp add: feed_loop.simps[of "st\<lparr>buffer := buffer st @ y\<rparr>"] Let_def)
    have rhs: "feed_loop st = (let r' = feed_loop (fst ?r) in (fst r', snd ?r @ snd r'))"
      using Some by (simp add: feed_loop.simps[of st] Let_def)
    show ?thesis
      unfolding lhs IH rhs by (simp add: Let_def)
  qed
qed

lemma feed_loop_no_newline: "indexOf LF (buffer (fst (feed_loop st))) = None"
proof (induction st rule: feed_loop.induct)
  case (1 st)
  show ?case
  proof (cases "indexOf LF (buffer st)")
    case None
    then show ?thesis by (simp add: feed_loop.simps[of st])
  next
    case (Some i)
    then show ?thesis using "1.IH"[OF Some refl]
      by (simp add: feed_loop.simps[of st] Let_def)
  qed
qed

lemma feed_loop_idle: "indexOf LF (buffer st) = None \<Longrightarrow> feed_loop st = (st, [])"
  by (simp add: feed_loop.simps[of st])

lemma feed_no_newline: "indexOf LF (buffer (fst (feed st c))) = None"
  by (simp add: feed_def feed_loop_no_newline)

lemma feed_feed:
  "feed st (c1 @ c2) =
     (fst (feed (fst (feed st c1)) c2), snd (feed st c1) @ snd (feed (fst (feed st c1)) c2))"
proof -
  let ?s = "st\<lparr>buffer := buffer st @ c1\<rparr>"
  have "feed st (c1 @ c2) = feed_loop (?s\<lparr>buffer := buffer ?s @ c2\<rparr>)"
    by (simp add: feed_def)
  also have "\<dots> = (let r = feed_loop ?s; r' = feed_loop ((fst r)\<lparr>buffer := buffer (fst r) @ c2\<rparr>)
                   in (fst r', snd r @ snd r'))"
    by (rule feed_loop_append)
  finally show ?thesis
    by (simp add: feed_def Let_def)
qed

lemma feed_chunks_concat:
  "indexOf LF (buffer st) = None \<Longrightarrow> feed_chunks st chunks = feed st (concat chunks)"
proof (induction chunks arbitrary: st)
  case Nil
  then show ?case by (simp add: feed_def feed_loop_idle)
next
  case (Cons c cs)
  have IH: "feed_chunks (fst (feed st c)) cs = feed (fst (feed st c)) (concat cs)"
    by (rule Cons.IH) (rule feed_no_newline)
  have "feed_chunks st (c # cs) =
      (fst (feed (fst (feed st c)) (concat cs)),
       snd (feed st c) @ snd (feed (fst (feed st c)) (concat cs)))"
    by (simp add: Let_def IH)
  also have "\<dots> = feed st (c @ concat cs)"
    by (rule feed_feed[symmetric])
  finally show ?case by simp
qed

lemma feed_chunks_single: "feed_chunks st [c] = feed st c"
  by (simp add: Let_def)

text \<open>
  C1 (as the claim states it, refuted): after the single chunk \<open>event: done\<newline>data: {}\<close>,
  \<open>end()\<close> does not emit the message with data \<open>{}\<close>.
\<close>

theorem flush_on_end_counterexample:
  "snd (parser_end (fst (feed createSseParser ''event: done\<newline>data: {}'')))
     \<noteq> [\<lparr>event = Some ''done'', data = ''{}''\<rparr>]"
  by code_simp

text \<open>
  C1 (amended): after the single chunk \<open>event: done\<newline>data: {}\<close> the feed itself emits
  nothing and the unterminated line \<open>data: {}\<close> stays in the buffer; \<open>end()\<close> emits exactly the
  one message with event \<open>done\<close> and empty data, built from the complete lines only; a second
  \<open>end()\<close> emits nothing. In every state, \<open>end()\<close> neither reads nor changes the buffer, and
  \<open>end()\<close> called twice in a row emits nothing the second time.
\<close>

theorem flush_on_end_complete_lines_only:
  "snd (feed createSseParser ''event: done\<newline>data: {}'') = []
   \<and> buffer (fst (feed createSseParser ''event: done\<newline>data: {}'')) = ''data: {}''
   \<and> snd (parser_end (fst (feed createSseParser ''event: done\<newline>data: {}'')))
       = [\<lparr>event = Some ''done'', data = ''''\<rparr>]
   \<and> snd (parser_end (fst (parser_end (fst (feed createSseParser ''event: done\<newline>data: {}''))))) = []
   \<and> snd (parser_end (st\<lparr>buffer := b\<rparr>)) = snd (parser_end st)
   \<and> buffer (fst (parser_end st)) = buffer st
   \<and> snd (parser_end (fst (parser_end st))) = []"
proof -
  have a: "snd (feed createSseParser ''event: done\<newline>data: {}'') = []"
    by code_simp
  have b: "buffer (fst (feed createSseParser ''event: done\<newline>data: {}'')) = ''data: {}''"
    by code_simp
  have c: "snd (parser_end (fst (feed createSseParser ''event: done\<newline>data: {}'')))
       = [\<lparr>event = Some ''done'', data = ''''\<rparr>]"
    by code_simp
  have d: "snd (parser_end (fst (parser_end (fst (feed createSseParser ''event: done\<newline>data: {}''))))) = []"
    by code_simp
  have e: "snd (parser_end (st\<lparr>buffer := b\<rparr>)) = snd (parser_end st)"
    by (simp add: parser_end_def dispatch_def)
  have f: "buffer (fst (parser_end st)) = buffer st"
    by (simp add: parser_end_def dispatch_def)
  have g: "snd (parser_end (fst (parser_end st))) = []"
    by (simp add: parser_end_def dispatch_def)
  from a b c d e f g show ?thesis by blast
qed

text \<open>
  C2: for every list of chunks, feeding the chunks one by one to a fresh parser and then
  calling \<open>end()\<close> emits the same messages, in the same order, as feeding their
  concatenation as a single chunk and then calling \<open>end()\<close>.
\<close>

theorem chunk_boundary_invariance:
  "parse_stream chunks = parse_stream [concat chunks]"
proof -
  have fresh: "indexOf LF (buffer createSseParser) = None"
    by (simp add: createSseParser_def)
  have "feed_chunks createSseParser chunks = feed createSseParser (concat chunks)"
    using fresh by (rule feed_chunks_concat)
  moreover have "feed_chunks createSseParser [concat chunks] = feed createSseParser (concat chunks)"
    by (rule feed_chunks_single)
  ultimately show ?thesis by (simp add: parse_stream_def)
qed

section \<open>The parser refines its line-by-line description\<close>

lemma event_values_append [simp]: "event_values (xs @ ys) = event_values xs @ event_values ys"
  by (induction xs rule: event_values.induct) auto

lemma data_values_append [simp]: "data_values (xs @ ys) = data_values xs @ data_values ys"
  by (induction xs rule: data_values.induct) auto

lemma spec_lines_from_cut:
  "indexOf LF buf = Some i \<Longrightarrow>
   spec_lines_from cur buf = spec_strip_cr (cur @ take i buf) # spec_lines_from [] (drop (Suc i) buf)"
  by (induction buf arbitrary: cur i) (auto split: if_splits)

lemma spec_lines_from_none: "indexOf LF buf = None \<Longrightarrow> spec_lines_from cur buf = []"
  by (induction buf arbitrary: cur) (auto split: if_splits)

lemma takeWhile_indexOf:
  "indexOf c l = Some i \<Longrightarrow>
   takeWhile (\<lambda>x. x \<noteq> c) l = take i l \<and> dropWhile (\<lambda>x. x \<noteq> c) l = c # drop (Suc i) l"
  by (induction l arbitrary: i) (auto split: if_splits)

lemma takeWhile_indexOf_none:
  "indexOf c l = None \<Longrightarrow> takeWhile (\<lambda>x. x \<noteq> c) l = l \<and> dropWhile (\<lambda>x. x \<noteq> c) l = []"
  by (induction l) (auto split: if_splits)

lemma field_name_eq:
  "(case indexOf c l of None \<Rightarrow> l | Some i \<Rightarrow> take i l) = takeWhile (\<lambda>x. x \<noteq> c) l"
  by (cases "indexOf c l") (simp_all add: takeWhile_indexOf takeWhile_indexOf_none)

lemma field_value_eq:
  "(case indexOf c l of None \<Rightarrow> [] | Some i \<Rightarrow> drop (i + 1) l)
     = (case dropWhile (\<lambda>x. x \<noteq> c) l of [] \<Rightarrow> [] | d # v \<Rightarrow> v)"
  by (cases "indexOf c l") (simp_all add: takeWhile_indexOf takeWhile_indexOf_none)

lemma strip_space_eq:
  "(if v0 \<noteq> [] \<and> hd v0 = s then tl v0 else v0)
     = (case v0 of [] \<Rightarrow> [] | c # v' \<Rightarrow> if c = s then v' else v0)"
  by (cases v0) simp_all

lemma process_line_as_spec:
  "process_line l0 st =
     (if spec_strip_cr l0 = [] then dispatch st
      else case spec_field_of (spec_strip_cr l0) of
             None \<Rightarrow> (st, [])
           | Some (EventField v) \<Rightarrow> (st\<lparr>eventName := Some v\<rparr>, [])
           | Some (DataField v) \<Rightarrow> (st\<lparr>dataLines := dataLines st @ [v]\<rparr>, []))"
  unfolding process_line_def spec_field_of_def field_name_eq field_value_eq strip_space_eq
    spec_strip_cr_def[symmetric] Let_def
  by simp

lemma dispatch_as_spec:
  "pending_of st pend \<Longrightarrow>
   snd (dispatch st) = (if amended_boundary pend then [spec_message pend] else [])
   \<and> pending_of (fst (dispatch st)) (if amended_boundary pend then [] else pend)"
  by (simp add: dispatch_def pending_of_def amended_boundary_def spec_message_def)

lemma pending_of_buffer [simp]: "pending_of (st\<lparr>buffer := b\<rparr>) pend = pending_of st pend"
  by (simp add: pending_of_def)

lemma process_line_pending:
  assumes "pending_of st pend"
  shows "pending_of (fst (process_line l0 st))
           (if spec_strip_cr l0 = [] then (if amended_boundary pend then [] else pend)
            else pend @ (case spec_field_of (spec_strip_cr l0) of None \<Rightarrow> [] | Some f \<Rightarrow> [f]))"
    and "snd (process_line l0 st) =
           (if spec_strip_cr l0 = [] \<and> amended_boundary pend then [spec_message pend] else [])"
  using assms dispatch_as_spec[OF assms]
  by (simp_all add: process_line_as_spec pending_of_def split: option.splits sse_field.splits)

lemma feed_loop_refines:
  "pending_of st pend \<Longrightarrow>
   snd (feed_loop st) = spec_messages amended_boundary pend (spec_complete_lines (buffer st))"
proof (induction st arbitrary: pend rule: feed_loop.induct)
  case (1 st)
  show ?case
  proof (cases "indexOf LF (buffer st)")
    case None
    then show ?thesis
      by (simp add: feed_loop.simps[of st] spec_complete_lines_def spec_lines_from_none)
  next
    case (Some i)
    let ?l0 = "take i (buffer st)"
    let ?st1 = "st\<lparr>buffer := drop (i + 1) (buffer st)\<rparr>"
    let ?pend' = "if spec_strip_cr ?l0 = [] then (if amended_boundary pend then [] else pend)
            else pend @ (case spec_field_of (spec_strip_cr ?l0) of None \<Rightarrow> [] | Some f \<Rightarrow> [f])"
    have p1: "pending_of ?st1 pend" using "1.prems" by simp
    have inv: "pending_of (fst (process_line ?l0 ?st1)) ?pend'"
      by (rule process_line_pending(1)[OF p1])
    have out: "snd (process_line ?l0 ?st1) =
           (if spec_strip_cr ?l0 = [] \<and> amended_boundary pend then [spec_message pend] else [])"
      by (rule process_line_pending(2)[OF p1])
    have IH: "snd (feed_loop (fst (process_line ?l0 ?st1))) =
        spec_messages amended_boundary ?pend' (spec_complete_lines (drop (i + 1) (buffer st)))"
      using "1.IH"[OF Some refl inv] by simp
    have lines: "spec_complete_lines (buffer st) =
        spec_strip_cr ?l0 # spec_complete_lines (drop (i + 1) (buffer st))"
      using spec_lines_from_cut[OF Some, of "[]"] by (simp add: spec_complete_lines_def)
    have "snd (feed_loop st) = snd (process_line ?l0 ?st1) @ snd (feed_loop (fst (process_line ?l0 ?st1)))"
      using Some by (simp add: feed_loop.simps[of st] Let_def)
    then show ?thesis
      unfolding out IH lines by simp
  qed
qed

text \<open>
  C3 (as the claim states it, refuted): on the input \<open>event:\<close>, blank line, an event name
  has been set (to the empty string) when the blank line arrives, so the claim has one
  message emitted there; the parser emits none.
\<close>

theorem dispatch_on_blank_line_counterexample:
  "snd (feed createSseParser ''event:\<newline>\<newline>'')
     \<noteq> spec_messages claimed_boundary [] (spec_complete_lines ''event:\<newline>\<newline>'')"
  by code_simp

text \<open>
  C3 (amended): for every fed input, the parser emits a message exactly at each complete
  empty line at which the event name last set is not empty or at least one data line has
  been accumulated (any other empty line emits nothing and clears nothing); the emitted
  message's data is the newline-join, in arrival order, of the \<open>data\<close> values since the
  previous dispatch, and its event is the value of the last \<open>event\<close> line since the
  previous dispatch (absent when there is none). The input
  \<open>event: x\<newline>data: a\<newline>data: b\<newline>\<newline>\<close> yields exactly the one message with event \<open>x\<close> and data
  \<open>a\<newline>b\<close>.
\<close>

theorem dispatch_on_blank_line:
  "snd (feed_chunks createSseParser chunks)
     = spec_messages amended_boundary [] (spec_complete_lines (concat chunks))
   \<and> snd (feed createSseParser ''event: x\<newline>data: a\<newline>data: b\<newline>\<newline>'')
     = [\<lparr>event = Some ''x'', data = ''a\<newline>b''\<rparr>]"
proof -
  have fresh: "indexOf LF (buffer createSseParser) = None"
    by (simp add: createSseParser_def)
  have start: "pending_of (createSseParser\<lparr>buffer := buffer createSseParser @ concat chunks\<rparr>) []"
    by (simp add: pending_of_def createSseParser_def)
  have "snd (feed_chunks createSseParser chunks) = snd (feed createSseParser (concat chunks))"
    using fresh by (simp add: feed_chunks_concat)
  also have "\<dots> = spec_messages amended_boundary [] (spec_complete_lines (concat chunks))"
    using feed_loop_refines[OF start] by (simp add: feed_def createSseParser_def)
  finally have general: "snd (feed_chunks createSseParser chunks)
     = spec_messages amended_boundary [] (spec_complete_lines (concat chunks))" .
  have example: "snd (feed createSseParser ''event: x\<newline>data: a\<newline>data: b\<newline>\<newline>'')
     = [\<lparr>event = Some ''x'', data = ''a\<newline>b''\<rparr>]"
    by code_simp
  from general example show ?thesis by blast
qed


section \<open>Properties of the abort coordinator\<close>

lemma abort_hit:
  "i < length h \<Longrightarrow> \<not> aborted (h ! i) \<Longrightarrow>
   abort (i # todo) h = abort (listeners (h ! i) @ todo) (h[i := (h ! i)\<lparr>aborted := True\<rparr>])"
  by (simp add: abort.simps)

lemma abort_skip:
  "\<not> (i < length h \<and> \<not> aborted (h ! i)) \<Longrightarrow> abort (i # todo) h = abort todo h"
  by (subst abort.simps) (simp only: if_False)

lemma abort_length [simp]: "length (abort todo h) = length h"
  by (induction todo h rule: abort.induct) (simp_all add: abort.simps)

lemma abort_mono: "j < length h \<Longrightarrow> aborted (h ! j) \<Longrightarrow> aborted (abort todo h ! j)"
proof (induction todo h rule: abort.induct)
  case (1 h)
  then show ?case by (simp add: abort.simps)
next
  case (2 i todo h)
  show ?case
  proof (cases "i < length h \<and> \<not> aborted (h ! i)")
    case True
    have "aborted ((h[i := (h ! i)\<lparr>aborted := True\<rparr>]) ! j)"
      using "2.prems" by (cases "i = j") simp_all
    with True "2.IH"(1) "2.prems"(1) show ?thesis
      by (simp add: abort_hit)
  next
    case False
    from "2.IH"(2)[OF False "2.prems"] show ?thesis
      by (simp add: abort_skip[OF False])
  qed
qed

lemma abort_hits: "i \<in> set todo \<Longrightarrow> i < length h \<Longrightarrow> aborted (abort todo h ! i)"
proof (induction todo h rule: abort.induct)
  case (1 h)
  then show ?case by simp
next
  case (2 k todo h)
  show ?case
  proof (cases "k < length h \<and> \<not> aborted (h ! k)")
    case True
    let ?h = "h[k := (h ! k)\<lparr>aborted := True\<rparr>]"
    show ?thesis
    proof (cases "i = k")
      case True
      have "aborted (?h ! i)" using \<open>i = k\<close> "2.prems" by simp
      then have "aborted (abort (listeners (h ! k) @ todo) ?h ! i)"
        using "2.prems" by (intro abort_mono) simp_all
      with \<open>k < length h \<and> \<not> aborted (h ! k)\<close> show ?thesis
        by (simp add: abort_hit)
    next
      case False
      with "2.prems" have "i \<in> set (listeners (h ! k) @ todo)" by simp
      with True "2.IH"(1) "2.prems"(2) show ?thesis
        by (simp add: abort_hit)
    qed
  next
    case False
    show ?thesis
    proof (cases "i = k")
      case True
      with False "2.prems" have "aborted (h ! i)" by simp
      then have "aborted (abort todo h ! i)" using "2.prems"(2) by (intro abort_mono)
      then show ?thesis by (simp add: abort_skip[OF False])
    next
      case neq: False
      with "2.prems" have "i \<in> set todo" by simp
      from "2.IH"(2)[OF False this "2.prems"(2)] show ?thesis
        by (simp add: abort_skip[OF False])
    qed
  qed
qed

lemma addEventListener_length [simp]: "length (addEventListener s c h) = length h"
  by (simp add: addEventListener_def)

lemma addEventListener_aborted [simp]:
  "j < length h \<Longrightarrow> aborted (addEventListener s c h ! j) = aborted (h ! j)"
  by (cases "j = s") (simp_all add: addEventListener_def)

lemma addEventListener_adds: "s < length h \<Longrightarrow> c \<in> set (listeners (addEventListener s c h ! s))"
  by (simp add: addEventListener_def)

lemma addEventListener_keeps:
  "j < length h \<Longrightarrow> x \<in> set (listeners (h ! j)) \<Longrightarrow> x \<in> set (listeners (addEventListener s c h ! j))"
  by (cases "j = s") (simp_all add: addEventListener_def)

lemma subscribe_none_aborted:
  assumes "\<forall>s \<in> set ss. s < length h \<and> \<not> aborted (h ! s)"
  shows "length (subscribe ss c h) = length h
     \<and> (\<forall>j < length h. aborted (subscribe ss c h ! j) = aborted (h ! j))
     \<and> (\<forall>j < length h. \<forall>x \<in> set (listeners (h ! j)). x \<in> set (listeners (subscribe ss c h ! j)))
     \<and> (\<forall>s \<in> set ss. c \<in> set (listeners (subscribe ss c h ! s)))"
  using assms
proof (induction ss arbitrary: h)
  case Nil
  then show ?case by simp
next
  case (Cons s ss)
  let ?h = "addEventListener s c h"
  have s: "s < length h" "\<not> aborted (h ! s)" using Cons.prems by simp_all
  have pre: "\<forall>t \<in> set ss. t < length ?h \<and> \<not> aborted (?h ! t)"
    using Cons.prems by simp
  note IH = Cons.IH[OF pre]
  have len: "length (subscribe ss c ?h) = length h" using IH by simp
  have flags: "\<forall>j < length h. aborted (subscribe ss c ?h ! j) = aborted (h ! j)"
    using IH by simp
  have keep: "\<forall>j < length h. \<forall>x \<in> set (listeners (h ! j)). x \<in> set (listeners (subscribe ss c ?h ! j))"
  proof (intro allI impI ballI)
    fix j x assume j: "j < length h" and x: "x \<in> set (listeners (h ! j))"
    have "x \<in> set (listeners (?h ! j))" using j x by (rule addEventListener_keeps)
    with IH j show "x \<in> set (listeners (subscribe ss c ?h ! j))" by simp
  qed
  have here: "c \<in> set (listeners (subscribe ss c ?h ! s))"
    using IH s(1) addEventListener_adds[OF s(1), of c] by simp
  have rest: "\<forall>t \<in> set ss. c \<in> set (listeners (subscribe ss c ?h ! t))"
    using IH by simp
  show ?case
    using s len flags keep here rest by simp
qed

lemma subscribe_some_aborted:
  assumes "\<forall>s \<in> set ss. s < length h" "c < length h" "\<exists>s \<in> set ss. aborted (h ! s)"
  shows "aborted (subscribe ss c h ! c)"
  using assms
proof (induction ss arbitrary: h)
  case Nil
  then show ?case by simp
next
  case (Cons s ss)
  show ?case
  proof (cases "aborted (h ! s)")
    case True
    then show ?thesis using Cons.prems(2) by (simp add: abort_hits)
  next
    case False
    let ?h = "addEventListener s c h"
    have "\<exists>t \<in> set ss. aborted (?h ! t)"
      using Cons.prems False by auto
    moreover have "\<forall>t \<in> set ss. t < length ?h" using Cons.prems by simp
    moreover have "c < length ?h" using Cons.prems by simp
    ultimately have "aborted (subscribe ss c ?h ! c)" by (intro Cons.IH)
    with False show ?thesis by simp
  qed
qed


lemma subscribe_length [simp]: "length (subscribe ss c h) = length h"
  by (induction ss arbitrary: h) simp_all

text \<open>
  C7: \<open>anySignal\<close> returns nothing when no signal is present; the signal itself, with the
  store untouched, when exactly one is present; and with two or more present a new signal
  (the next position of the store) that is aborted on return exactly when some present
  signal was aborted at the call, and that, when none was, is aborted by the abort of any
  present signal.
\<close>

theorem anySignal_contract:
  assumes valid: "\<forall>s \<in> set (present_signals signals). s < length h"
  shows "(present_signals signals = [] \<longrightarrow> anySignal signals h = (None, h))
     \<and> (\<forall>s. present_signals signals = [s] \<longrightarrow> anySignal signals h = (Some s, h))
     \<and> (2 \<le> length (present_signals signals) \<longrightarrow>
          fst (anySignal signals h) = Some (length h)
          \<and> length (snd (anySignal signals h)) = Suc (length h)
          \<and> (aborted (snd (anySignal signals h) ! length h)
               \<longleftrightarrow> (\<exists>s \<in> set (present_signals signals). aborted (h ! s)))
          \<and> ((\<forall>s \<in> set (present_signals signals). \<not> aborted (h ! s)) \<longrightarrow>
               (\<forall>s \<in> set (present_signals signals).
                  aborted (abort [s] (snd (anySignal signals h)) ! length h))))"
proof (intro conjI impI allI)
  assume "present_signals signals = []"
  then show "anySignal signals h = (None, h)" by (simp add: anySignal_def)
next
  fix s assume "present_signals signals = [s]"
  then show "anySignal signals h = (Some s, h)" by (simp add: anySignal_def)
next
  let ?ps = "present_signals signals"
  let ?c = "length h"
  let ?h1 = "h @ [\<lparr>aborted = False, listeners = []\<rparr>]"
  assume two: "2 \<le> length ?ps"
  have "length ?ps \<noteq> 0" "length ?ps \<noteq> 1" using two by auto
  then have res: "anySignal signals h = (Some ?c, subscribe ?ps ?c ?h1)"
    by (simp add: anySignal_def new_AbortController_def Let_def del: length_0_conv)
  have old: "\<forall>s \<in> set ?ps. s < length ?h1 \<and> aborted (?h1 ! s) = aborted (h ! s)"
    using valid by (auto simp: nth_append)
  show "fst (anySignal signals h) = Some ?c" by (simp add: res)
  show "length (snd (anySignal signals h)) = Suc ?c" by (simp add: res)
  show "aborted (snd (anySignal signals h) ! ?c) \<longleftrightarrow> (\<exists>s \<in> set ?ps. aborted (h ! s))"
  proof (cases "\<exists>s \<in> set ?ps. aborted (h ! s)")
    case True
    then have "\<exists>s \<in> set ?ps. aborted (?h1 ! s)" using old by blast
    moreover have "\<forall>s \<in> set ?ps. s < length ?h1" using old by blast
    ultimately have "aborted (subscribe ?ps ?c ?h1 ! ?c)"
      by (intro subscribe_some_aborted) simp_all
    with True show ?thesis by (simp add: res)
  next
    case False
    then have none: "\<forall>s \<in> set ?ps. s < length ?h1 \<and> \<not> aborted (?h1 ! s)" using old by blast
    have "aborted (subscribe ?ps ?c ?h1 ! ?c) = aborted (?h1 ! ?c)"
      using subscribe_none_aborted[OF none, of ?c] by simp
    with False show ?thesis by (simp add: res)
  qed
  assume clear: "\<forall>s \<in> set ?ps. \<not> aborted (h ! s)"
  then have none: "\<forall>s \<in> set ?ps. s < length ?h1 \<and> \<not> aborted (?h1 ! s)" using old by blast
  let ?h' = "subscribe ?ps ?c ?h1"
  note sub = subscribe_none_aborted[OF none, of ?c]
  show "\<forall>s \<in> set ?ps. aborted (abort [s] (snd (anySignal signals h)) ! ?c)"
  proof
    fix s assume s: "s \<in> set ?ps"
    have s1: "s < length ?h'" using none s by simp
    have s2: "\<not> aborted (?h' ! s)" using sub none s by simp
    have s3: "?c \<in> set (listeners (?h' ! s))" using sub s by blast
    have "abort [s] ?h' = abort (listeners (?h' ! s) @ []) (?h'[s := (?h' ! s)\<lparr>aborted := True\<rparr>])"
      using s1 s2 by (rule abort_hit)
    moreover have "aborted (abort (listeners (?h' ! s) @ []) (?h'[s := (?h' ! s)\<lparr>aborted := True\<rparr>]) ! ?c)"
      by (rule abort_hits) (use s3 in simp_all)
    ultimately show "aborted (abort [s] (snd (anySignal signals h)) ! ?c)"
      by (simp add: res)
  qed
qed

text \<open>
  The contract at a store of two signals, neither aborted, the second already listened to
  by the first: the combined signal is the new position 2, not aborted, and the abort of
  either input aborts it.
\<close>

theorem anySignal_contract_witness:
  "present_signals [Some 0, None, Some 1] = [0, 1]
   \<and> fst (anySignal [Some 0, None, Some 1]
            [\<lparr>aborted = False, listeners = []\<rparr>, \<lparr>aborted = False, listeners = [0]\<rparr>]) = Some 2
   \<and> \<not> aborted (snd (anySignal [Some 0, None, Some 1]
            [\<lparr>aborted = False, listeners = []\<rparr>, \<lparr>aborted = False, listeners = [0]\<rparr>]) ! 2)
   \<and> aborted (abort [0] (snd (anySignal [Some 0, None, Some 1]
            [\<lparr>aborted = False, listeners = []\<rparr>, \<lparr>aborted = False, listeners = [0]\<rparr>])) ! 2)
   \<and> aborted (abort [1] (snd (anySignal [Some 0, None, Some 1]
            [\<lparr>aborted = False, listeners = []\<rparr>, \<lparr>aborted = False, listeners = [0]\<rparr>])) ! 2)"
proof -
  let ?sigs = "[Some 0, None, Some 1] :: nat option list"
  let ?h = "[\<lparr>aborted = False, listeners = []\<rparr>, \<lparr>aborted = False, listeners = [0]\<rparr>]"
  have p: "present_signals ?sigs = [0, 1]"
    by (simp add: present_signals_def map_filter_def)
  have valid: "\<forall>s \<in> set (present_signals ?sigs). s < length ?h"
    unfolding p by simp
  have two: "2 \<le> length (present_signals ?sigs)"
    unfolding p by simp
  have clear: "\<forall>s \<in> set (present_signals ?sigs). \<not> aborted (?h ! s)"
    unfolding p by simp
  from anySignal_contract[OF valid] two
  have res: "fst (anySignal ?sigs ?h) = Some (length ?h)"
    and flag: "aborted (snd (anySignal ?sigs ?h) ! length ?h)
               \<longleftrightarrow> (\<exists>s \<in> set (present_signals ?sigs). aborted (?h ! s))"
    and fire: "(\<forall>s \<in> set (present_signals ?sigs). \<not> aborted (?h ! s)) \<longrightarrow>
               (\<forall>s \<in> set (present_signals ?sigs). aborted (abort [s] (snd (anySignal ?sigs ?h)) ! length ?h))"
    by blast+
  from fire clear have all: "\<forall>s \<in> set [0, 1::nat]. aborted (abort [s] (snd (anySignal ?sigs ?h)) ! length ?h)"
    unfolding p by blast
  have len: "length ?h = 2" by simp
  from flag clear have no: "\<not> aborted (snd (anySignal ?sigs ?h) ! length ?h)" by blast
  from all have a0: "aborted (abort [0] (snd (anySignal ?sigs ?h)) ! length ?h)"
    and a1: "aborted (abort [1] (snd (anySignal ?sigs ?h)) ! length ?h)" by simp_all
  show ?thesis
    using p res no a0 a1 unfolding len by blast
qed


section \<open>Properties of the streaming run controller\<close>

lemma onMessage_parser [simp]: "parser (onMessage parse st m) = parser st"
  by (simp add: onMessage_def split: option.splits)

lemma onMessage_parser_upd [simp]:
  "onMessage parse (st\<lparr>parser := p\<rparr>) m = (onMessage parse st m)\<lparr>parser := p\<rparr>"
  by (simp add: onMessage_def split: option.splits)

lemma foldl_onMessage_parser_upd [simp]:
  "foldl (onMessage parse) (st\<lparr>parser := p\<rparr>) ms = (foldl (onMessage parse) st ms)\<lparr>parser := p\<rparr>"
  by (induction ms arbitrary: st) simp_all

lemma payloads_snoc:
  "payloads parse (ms @ [m]) = payloads parse ms @
     (case (if data m \<noteq> [] \<and> (event m = Some ''init'' \<or> event m = Some ''done'')
            then parse (data m) else None) of None \<Rightarrow> [] | Some p \<Rightarrow> [p])"
  by (simp add: payloads_def map_filter_def split: option.splits)

lemma done_payloads_snoc:
  "done_payloads parse (ms @ [m]) = done_payloads parse ms @
     (case (if data m \<noteq> [] \<and> event m = Some ''done''
            then parse (data m) else None) of None \<Rightarrow> [] | Some p \<Rightarrow> [p])"
  by (simp add: done_payloads_def map_filter_def split: option.splits)

lemma done_payloads_append:
  "done_payloads parse (xs @ ys) = done_payloads parse xs @ done_payloads parse ys"
  by (simp add: done_payloads_def map_filter_def)

text \<open>What the callback leaves in \<open>lastSeen\<close> and \<open>final\<close> after a list of messages.\<close>

lemma lastSeen_foldl:
  "lastSeen (foldl (onMessage parse) st ms) =
     (case last_opt (payloads parse ms) of None \<Rightarrow> lastSeen st | Some p \<Rightarrow> Some p)"
proof (induction ms rule: rev_induct)
  case Nil
  show ?case by (simp add: payloads_def last_opt_def map_filter_def)
next
  case (snoc m ms)
  then show ?case
    by (simp add: payloads_snoc onMessage_def last_opt_def split: option.splits)
qed

lemma final_foldl:
  "final (foldl (onMessage parse) st ms) =
     (case last_opt (done_payloads parse ms) of None \<Rightarrow> final st | Some p \<Rightarrow> Some p)"
proof (induction ms rule: rev_induct)
  case Nil
  show ?case by (simp add: done_payloads_def last_opt_def map_filter_def)
next
  case (snoc m ms)
  then show ?case
    by (simp add: done_payloads_snoc onMessage_def last_opt_def split: option.splits)
qed

lemma run_feed_alt:
  "run_feed parse st c =
     (foldl (onMessage parse) st (snd (feed (parser st) c)))\<lparr>parser := fst (feed (parser st) c)\<rparr>"
  by (simp add: run_feed_def Let_def)

lemma run_end_alt:
  "run_end parse st =
     (foldl (onMessage parse) st (snd (parser_end (parser st))))\<lparr>parser := fst (parser_end (parser st))\<rparr>"
  by (simp add: run_end_def Let_def)

lemma foldl_onMessage_parser [simp]: "parser (foldl (onMessage parse) st ms) = parser st"
  by (induction ms arbitrary: st) simp_all

lemma foldl_run_feed:
  "foldl (run_feed parse) st cs =
     (foldl (onMessage parse) st (snd (feed_chunks (parser st) cs)))
       \<lparr>parser := fst (feed_chunks (parser st) cs)\<rparr>"
proof (induction cs arbitrary: st)
  case Nil
  show ?case by simp
next
  case (Cons c cs)
  show ?case
    by (simp add: Cons.IH Let_def) (simp add: run_feed_alt)
qed

lemma feed_chunks_append:
  "feed_chunks p (xs @ ys) =
     (fst (feed_chunks (fst (feed_chunks p xs)) ys),
      snd (feed_chunks p xs) @ snd (feed_chunks (fst (feed_chunks p xs)) ys))"
  by (induction xs arbitrary: p) (simp_all add: Let_def)

text \<open>The state once every chunk has been fed and \<open>end()\<close> has been called.\<close>

lemma run_end_foldl:
  "run_end parse (foldl (run_feed parse) new_run cs) =
     (foldl (onMessage parse) new_run (parse_stream cs))
       \<lparr>parser := fst (parser_end (fst (feed_chunks createSseParser cs)))\<rparr>"
  by (simp add: run_end_alt foldl_run_feed parse_stream_def Let_def new_run_def)

lemma final_fed:
  "final (foldl (run_feed parse) new_run cs)
     = last_opt (done_payloads parse (snd (feed_chunks createSseParser cs)))"
  by (simp add: foldl_run_feed final_foldl new_run_def split: option.splits)

lemma final_ended:
  "final (run_end parse (foldl (run_feed parse) new_run cs))
     = last_opt (done_payloads parse (parse_stream cs))"
  by (subst run_end_foldl) (simp add: final_foldl new_run_def split: option.splits)

lemma lastSeen_ended:
  "lastSeen (run_end parse (foldl (run_feed parse) new_run cs))
     = last_opt (payloads parse (parse_stream cs))"
  by (subst run_end_foldl) (simp add: lastSeen_foldl new_run_def split: option.splits)

lemma last_opt_in: "last_opt xs = Some x \<Longrightarrow> x \<in> set xs"
  by (auto simp: last_opt_def split: if_splits)

lemma read_loop_all:
  "(\<And>k. k \<le> length cs \<Longrightarrow> \<not> truthy_opt (final (foldl (run_feed parse) st (take k cs)))) \<Longrightarrow>
   read_loop parse cs e st =
     (case e of StreamClosed \<Rightarrow> Inr (foldl (run_feed parse) st cs, []) | StreamError err \<Rightarrow> Inl err)"
proof (induction cs arbitrary: st)
  case Nil
  from Nil[of 0] show ?case by (simp split: stream_end.splits)
next
  case (Cons c cs)
  have now: "\<not> truthy_opt (final st)" using Cons.prems[of 0] by simp
  have later: "\<not> truthy_opt (final (foldl (run_feed parse) (run_feed parse st c) (take k cs)))"
    if "k \<le> length cs" for k
    using Cons.prems[of "Suc k"] that by simp
  show ?case
    using now Cons.IH[OF later] by (simp split: stream_end.splits)
qed


text \<open>The \<open>done\<close> payloads decoded from a prefix of the chunks are among those of the whole stream.\<close>

lemma done_payloads_prefix:
  "set (done_payloads parse (snd (feed_chunks createSseParser (take k cs))))
     \<subseteq> set (done_payloads parse (parse_stream cs))"
proof -
  have "feed_chunks createSseParser cs = feed_chunks createSseParser (take k cs @ drop k cs)"
    by simp
  then have "snd (feed_chunks createSseParser cs) =
      snd (feed_chunks createSseParser (take k cs))
        @ snd (feed_chunks (fst (feed_chunks createSseParser (take k cs))) (drop k cs))"
    by (simp only: feed_chunks_append snd_conv)
  then show ?thesis
    by (auto simp: parse_stream_def Let_def done_payloads_append)
qed

lemma never_captured:
  assumes "\<forall>p \<in> set (done_payloads parse (parse_stream cs)). \<not> truthy p"
  shows "\<not> truthy_opt (final (foldl (run_feed parse) new_run (take k cs)))"
proof (cases "last_opt (done_payloads parse (snd (feed_chunks createSseParser (take k cs))))")
  case None
  then show ?thesis by (simp add: final_fed)
next
  case (Some p)
  then have "p \<in> set (done_payloads parse (parse_stream cs))"
    using done_payloads_prefix[of parse k cs] last_opt_in by fastforce
  with assms Some show ?thesis by (simp add: final_fed)
qed

text \<open>The controller on a stream that closes without a truthy \<open>done\<close> payload.\<close>

lemma attempt_stream_closed:
  assumes "ok r" "\<not> isJson r" "body r = Some (chunks, StreamClosed)"
    and "\<forall>p \<in> set (done_payloads parse (parse_stream chunks)). \<not> truthy p"
  shows "attempt parse url (Inr r) =
     (case last_opt (payloads parse (parse_stream chunks)) of
        Some l \<Rightarrow> if acceptable l then Inr l else Inl stream_ended
      | None \<Rightarrow> Inl stream_ended)"
proof -
  let ?st = "foldl (run_feed parse) new_run chunks"
  have loop: "read_loop parse chunks StreamClosed new_run = Inr (?st, [])"
    using read_loop_all[of chunks parse new_run StreamClosed] never_captured[OF assms(4)]
    by simp
  have fin: "\<not> truthy_opt (final (run_end parse ?st))"
  proof (cases "last_opt (done_payloads parse (parse_stream chunks))")
    case None
    then show ?thesis by (simp add: final_ended)
  next
    case (Some p)
    with assms(4) last_opt_in[OF Some] show ?thesis by (simp add: final_ended)
  qed
  have obj: "truthy_opt (status_of l) \<Longrightarrow> truthy l" for l
    by (cases l) simp_all
  have res: "resolve (run_end parse ?st) =
     (case last_opt (payloads parse (parse_stream chunks)) of
        Some l \<Rightarrow> if acceptable l then Inr l else Inl stream_ended
      | None \<Rightarrow> Inl stream_ended)"
    using fin obj
    by (auto simp: resolve_def lastSeen_ended acceptable_def stream_ended_def split: option.splits)
  show ?thesis
    using assms(1-3) by (simp add: attempt_def loop res)
qed

lemma sse_response_path:
  "ok (sse_response cs)" "\<not> isJson (sse_response cs)" "body (sse_response cs) = Some (cs, StreamClosed)"
proof -
  have "\<not> includes_str ''text/event-stream'' ''application/json''" by code_simp
  then show "\<not> isJson (sse_response cs)" by (simp add: isJson_def sse_response_def)
qed (simp_all add: ok_def sse_response_def)

lemma run_settled:
  "settled (runStreamingAgentAndWait parse toText url timeoutMs fetched timedOut) =
     (case attempt parse url fetched of
        Inr v \<Rightarrow> Inr v
      | Inl err \<Rightarrow> if timedOut then Inl (timed_out_error toText timeoutMs) else Inl err)"
  by (simp add: runStreamingAgentAndWait_def timed_out_error_def Let_def split: sum.splits)

lemma run_not_timed_out:
  "settled (runStreamingAgentAndWait parse toText url timeoutMs fetched False) = attempt parse url fetched"
  by (simp add: run_settled split: sum.splits)

lemma run_timed_out_failure:
  "attempt parse url fetched = Inl err \<Longrightarrow>
   settled (runStreamingAgentAndWait parse toText url timeoutMs fetched True)
     = Inl (timed_out_error toText timeoutMs)"
  by (simp add: run_settled)

lemma sample_timed_out_error:
  "timed_out_error sample_text None
     = SeclaiError ''Timed out after 60000ms waiting for streaming agent run to complete.''"
  by (simp add: timed_out_error_def sample_text_def)

text \<open>
  C4 (as the claim states it, refuted): the stream emits one \<open>init\<close> message whose payload
  has the status member \<open>""\<close> and closes. No \<open>done\<close> payload is captured, the last payload
  decoded has a status member that is present and is not \<open>pending\<close>, and the function
  fails with the stream-ended error.
\<close>

theorem last_seen_fallback_counterexample:
  "done_payloads sample_parse
      (parse_stream [''event: init\<newline>data: '' @ status_text '''' @ ''\<newline>\<newline>'']) = []
   \<and> last_opt (payloads sample_parse
      (parse_stream [''event: init\<newline>data: '' @ status_text '''' @ ''\<newline>\<newline>'']))
       = Some (JObj [(''status'', JStr '''')])
   \<and> claimed_acceptable (JObj [(''status'', JStr '''')])
   \<and> settled (runStreamingAgentAndWait sample_parse sample_text ''https://api.seclai.com/agents/a/runs/stream'' None
        (Inr (sse_response [''event: init\<newline>data: '' @ status_text '''' @ ''\<newline>\<newline>''])) False)
       = Inl stream_ended"
proof -
  let ?cs = "[''event: init\<newline>data: '' @ status_text '''' @ ''\<newline>\<newline>'']"
  have dp: "done_payloads sample_parse (parse_stream ?cs) = []"
    by code_simp
  have ps: "last_opt (payloads sample_parse (parse_stream ?cs)) = Some (JObj [(''status'', JStr '''')])"
    by code_simp
  have ca: "claimed_acceptable (JObj [(''status'', JStr '''')])"
    by (simp add: claimed_acceptable_def)
  have acc: "\<not> acceptable (JObj [(''status'', JStr '''')])"
    by (simp add: acceptable_def)
  have no: "\<forall>p \<in> set (done_payloads sample_parse (parse_stream ?cs)). \<not> truthy p"
    unfolding dp by simp
  have "attempt sample_parse ''https://api.seclai.com/agents/a/runs/stream'' (Inr (sse_response ?cs))
          = Inl stream_ended"
    by (simp only: attempt_stream_closed[OF sse_response_path(1) sse_response_path(2) sse_response_path(3) no]
          ps option.case acc if_False)
  then have "settled (runStreamingAgentAndWait sample_parse sample_text ''https://api.seclai.com/agents/a/runs/stream'' None
        (Inr (sse_response ?cs)) False) = Inl stream_ended"
    by (simp only: run_not_timed_out)
  with dp ps ca show ?thesis by blast
qed

text \<open>
  C4 (amended): when the stream closes and no \<open>done\<close> message of it carried a truthy
  payload, the function succeeds with the last payload decoded from an \<open>init\<close> or \<open>done\<close>
  message if such a payload exists and its status member is truthy (present and not
  \<open>null\<close>, \<open>false\<close>, \<open>0\<close> or \<open>""\<close>) and is not \<open>pending\<close>; otherwise it fails with the
  stream-ended error. (The timeout has not fired.)
\<close>

theorem last_seen_fallback:
  assumes "ok r" "\<not> isJson r" "body r = Some (chunks, StreamClosed)"
    and "\<forall>p \<in> set (done_payloads parse (parse_stream chunks)). \<not> truthy p"
  shows "settled (runStreamingAgentAndWait parse toText url timeoutMs (Inr r) False) =
     (case last_opt (payloads parse (parse_stream chunks)) of
        Some l \<Rightarrow> if acceptable l then Inr l else Inl stream_ended
      | None \<Rightarrow> Inl stream_ended)"
  using attempt_stream_closed[OF assms, of url]
  by (simp only: run_not_timed_out)

text \<open>
  The amended rule on the stream of the claim: a single \<open>init\<close> message with the
  payload \<open>{"status":"pending"}\<close>, then the close. The function fails with the stream-ended
  error.
\<close>

theorem last_seen_fallback_witness:
  "ok (sse_response [''event: init\<newline>data: '' @ status_text ''pending'' @ ''\<newline>\<newline>''])
   \<and> done_payloads sample_parse
        (parse_stream [''event: init\<newline>data: '' @ status_text ''pending'' @ ''\<newline>\<newline>'']) = []
   \<and> settled (runStreamingAgentAndWait sample_parse sample_text ''https://api.seclai.com/agents/a/runs/stream'' None
        (Inr (sse_response [''event: init\<newline>data: '' @ status_text ''pending'' @ ''\<newline>\<newline>''])) False)
       = Inl stream_ended"
proof -
  let ?cs = "[''event: init\<newline>data: '' @ status_text ''pending'' @ ''\<newline>\<newline>'']"
  have dp: "done_payloads sample_parse (parse_stream ?cs) = []"
    by code_simp
  have ps: "last_opt (payloads sample_parse (parse_stream ?cs)) = Some (JObj [(''status'', JStr ''pending'')])"
    by code_simp
  have no: "\<forall>p \<in> set (done_payloads sample_parse (parse_stream ?cs)). \<not> truthy p"
    unfolding dp by simp
  have acc: "\<not> acceptable (JObj [(''status'', JStr ''pending'')])"
    by (simp add: acceptable_def)
  have "settled (runStreamingAgentAndWait sample_parse sample_text ''https://api.seclai.com/agents/a/runs/stream'' None
        (Inr (sse_response ?cs)) False) = Inl stream_ended"
    by (simp only: last_seen_fallback[OF sse_response_path(1) sse_response_path(2) sse_response_path(3) no]
          ps option.case acc if_False)
  with dp sse_response_path(1) show ?thesis by blast
qed

text \<open>
  C8: on a success response whose content type includes \<open>application/json\<close> and whose
  body decodes to \<open>j\<close>, the function returns \<open>j\<close>, whatever the body stream holds and
  whether or not the timer fired: no chunk is read and nothing is parsed as SSE.
\<close>

theorem json_short_circuit:
  assumes "ok r" "isJson r" "jsonResult r = Inr j"
  shows "settled (runStreamingAgentAndWait parse toText url timeoutMs (Inr (r\<lparr>body := b\<rparr>)) timedOut) = Inr j"
proof -
  have "attempt parse url (Inr (r\<lparr>body := b\<rparr>)) = Inr j"
    using assms by (simp add: attempt_def ok_def isJson_def)
  then show ?thesis
    by (simp add: run_settled)
qed

text \<open>
  A response of status 200 and type \<open>application/json; charset=utf-8\<close> whose body decodes
  to an object; the stream handed over holds SSE text that is never looked at.
\<close>

theorem json_short_circuit_witness:
  "ok \<lparr>status = 200, contentType = Some ''application/json; charset=utf-8'', textResult = Inr ''{}'',
        jsonResult = Inr (JObj []), body = None\<rparr>
   \<and> isJson \<lparr>status = 200, contentType = Some ''application/json; charset=utf-8'', textResult = Inr ''{}'',
        jsonResult = Inr (JObj []), body = None\<rparr>
   \<and> settled (runStreamingAgentAndWait sample_parse sample_text ''https://api.seclai.com/agents/a/runs/stream'' None
        (Inr \<lparr>status = 200, contentType = Some ''application/json; charset=utf-8'', textResult = Inr ''{}'',
        jsonResult = Inr (JObj []), body = Some ([''event: done\<newline>data: 1\<newline>\<newline>''], StreamClosed)\<rparr>) True)
      = Inr (JObj [])"
proof -
  let ?r = "\<lparr>status = 200, contentType = Some ''application/json; charset=utf-8'', textResult = Inr ''{}'',
        jsonResult = Inr (JObj []), body = None\<rparr>"
  have o: "ok ?r" by (simp add: ok_def)
  have "includes_str ''application/json; charset=utf-8'' ''application/json''" by code_simp
  then have i: "isJson ?r" by (simp add: isJson_def)
  have j: "jsonResult ?r = Inr (JObj [])" by simp
  from json_short_circuit[OF o i j, of sample_parse sample_text "''https://api.seclai.com/agents/a/runs/stream''" None
      "Some ([''event: done\<newline>data: 1\<newline>\<newline>''], StreamClosed)" True]
  have "settled (runStreamingAgentAndWait sample_parse sample_text ''https://api.seclai.com/agents/a/runs/stream'' None
        (Inr \<lparr>status = 200, contentType = Some ''application/json; charset=utf-8'', textResult = Inr ''{}'',
        jsonResult = Inr (JObj []), body = Some ([''event: done\<newline>data: 1\<newline>\<newline>''], StreamClosed)\<rparr>) True)
      = Inr (JObj [])"
    by simp
  with o i show ?thesis by blast
qed

text \<open>
  C10 (as the claim states it, refuted): the stream of the claim, a single chunk
  \<open>event: done\<newline>data:\<newline>\<newline>\<close> and the close, with the timeout timer fired by the time the
  function finds the stream ended. The failure is the timeout error, not the stream-ended
  error.
\<close>

theorem empty_data_ignored_counterexample:
  "settled (runStreamingAgentAndWait sample_parse sample_text ''https://api.seclai.com/agents/a/runs/stream'' None
        (Inr (sse_response [''event: done\<newline>data:\<newline>\<newline>''])) True)
     = Inl (SeclaiError ''Timed out after 60000ms waiting for streaming agent run to complete.'')
   \<and> settled (runStreamingAgentAndWait sample_parse sample_text ''https://api.seclai.com/agents/a/runs/stream'' None
        (Inr (sse_response [''event: done\<newline>data:\<newline>\<newline>''])) True)
     \<noteq> Inl stream_ended"
proof -
  let ?cs = "[''event: done\<newline>data:\<newline>\<newline>'']"
  let ?u = "''https://api.seclai.com/agents/a/runs/stream''"
  have ps: "parse_stream ?cs = [\<lparr>event = Some ''done'', data = ''''\<rparr>]"
    by code_simp
  have dp: "done_payloads sample_parse (parse_stream ?cs) = []"
    unfolding ps by (simp add: done_payloads_def map_filter_def)
  have pl: "payloads sample_parse (parse_stream ?cs) = []"
    unfolding ps by (simp add: payloads_def map_filter_def)
  have no: "\<forall>p \<in> set (done_payloads sample_parse (parse_stream ?cs)). \<not> truthy p"
    unfolding dp by simp
  have att: "attempt sample_parse ?u (Inr (sse_response ?cs)) = Inl stream_ended"
    unfolding attempt_stream_closed[OF sse_response_path(1) sse_response_path(2) sse_response_path(3) no] pl
    by (simp add: last_opt_def)
  have t: "settled (runStreamingAgentAndWait sample_parse sample_text ?u None (Inr (sse_response ?cs)) True)
     = Inl (SeclaiError ''Timed out after 60000ms waiting for streaming agent run to complete.'')"
    by (simp only: run_timed_out_failure[OF att] sample_timed_out_error)
  have "SeclaiError ''Timed out after 60000ms waiting for streaming agent run to complete.'' \<noteq> stream_ended"
    by (simp add: stream_ended_def)
  with t show ?thesis by simp
qed

text \<open>
  C10 (amended): a message whose data is the empty string leaves \<open>final\<close> and \<open>lastSeen\<close>
  (the whole state) as they are, whatever its event; and on a success response that is
  not JSON and whose body delivers the single chunk \<open>event: done\<newline>data:\<newline>\<newline>\<close> and closes, the
  function fails instead of succeeding: with the stream-ended error when the timeout
  timer has not fired, with the timeout error when it has.
\<close>

theorem empty_data_ignored:
  assumes "ok r" "\<not> isJson r" "body r = Some ([''event: done\<newline>data:\<newline>\<newline>''], StreamClosed)"
  shows "(data m = [] \<longrightarrow> onMessage parse st m = st)
     \<and> parse_stream [''event: done\<newline>data:\<newline>\<newline>''] = [\<lparr>event = Some ''done'', data = ''''\<rparr>]
     \<and> settled (runStreamingAgentAndWait parse toText url timeoutMs (Inr r) timedOut)
         = Inl (if timedOut then timed_out_error toText timeoutMs else stream_ended)"
proof -
  have ign: "data m = [] \<longrightarrow> onMessage parse st m = st"
    by (simp add: onMessage_def)
  have ps: "parse_stream [''event: done\<newline>data:\<newline>\<newline>''] = [\<lparr>event = Some ''done'', data = ''''\<rparr>]"
    by code_simp
  have dp: "done_payloads parse (parse_stream [''event: done\<newline>data:\<newline>\<newline>'']) = []"
    unfolding ps by (simp add: done_payloads_def map_filter_def)
  have pl: "payloads parse (parse_stream [''event: done\<newline>data:\<newline>\<newline>'']) = []"
    unfolding ps by (simp add: payloads_def map_filter_def)
  have no: "\<forall>p \<in> set (done_payloads parse (parse_stream [''event: done\<newline>data:\<newline>\<newline>''])). \<not> truthy p"
    unfolding dp by simp
  have "attempt parse url (Inr r) = Inl stream_ended"
    unfolding attempt_stream_closed[OF assms no] pl by (simp add: last_opt_def)
  then have "settled (runStreamingAgentAndWait parse toText url timeoutMs (Inr r) timedOut)
         = Inl (if timedOut then timed_out_error toText timeoutMs else stream_ended)"
    by (simp add: run_settled)
  with ign ps show ?thesis by blast
qed

text \<open>
  The claim's stream on a \<open>text/event-stream\<close> response, with the sample decoder and the
  timer not fired: the empty \<open>done\<close> message changes nothing and the function fails with
  the stream-ended error.
\<close>

theorem empty_data_ignored_witness:
  "ok (sse_response [''event: done\<newline>data:\<newline>\<newline>''])
   \<and> onMessage sample_parse new_run \<lparr>event = Some ''done'', data = ''''\<rparr> = new_run
   \<and> settled (runStreamingAgentAndWait sample_parse sample_text ''https://api.seclai.com/agents/a/runs/stream'' None
        (Inr (sse_response [''event: done\<newline>data:\<newline>\<newline>''])) False) = Inl stream_ended"
proof -
  note T = empty_data_ignored[OF sse_response_path(1) sse_response_path(2) sse_response_path(3),
      of "\<lparr>event = Some ''done'', data = ''''\<rparr>" sample_parse new_run sample_text
         "''https://api.seclai.com/agents/a/runs/stream''" None False]
  have d: "data \<lparr>event = Some ''done'', data = ''''\<rparr> = []" by simp
  from T have "settled (runStreamingAgentAndWait sample_parse sample_text ''https://api.seclai.com/agents/a/runs/stream'' None
        (Inr (sse_response [''event: done\<newline>data:\<newline>\<newline>''])) False) = Inl (if False then timed_out_error sample_text None else stream_ended)"
    by blast
  then have s: "settled (runStreamingAgentAndWait sample_parse sample_text ''https://api.seclai.com/agents/a/runs/stream'' None
        (Inr (sse_response [''event: done\<newline>data:\<newline>\<newline>''])) False) = Inl stream_ended"
    by (simp only: if_False)
  from T d have "onMessage sample_parse new_run \<lparr>event = Some ''done'', data = ''''\<rparr> = new_run"
    by blast
  with s sse_response_path(1) show ?thesis by blast
qed

text \<open>
  C9 (as the claim states it, refuted): a response of status 422 whose body decodes, with
  the timeout timer fired by the time the error is thrown (the body is awaited twice
  before). The failure is the timeout error, not the validation error.
\<close>

theorem error_status_mapping_counterexample:
  "\<not> ok \<lparr>status = 422, contentType = Some ''application/json'', textResult = Inr ''{}'',
          jsonResult = Inr (JObj []), body = None\<rparr>
   \<and> settled (runStreamingAgentAndWait sample_parse sample_text ''https://api.seclai.com/agents/a/runs/stream'' None
        (Inr \<lparr>status = 422, contentType = Some ''application/json'', textResult = Inr ''{}'',
          jsonResult = Inr (JObj []), body = None\<rparr>) True)
      = Inl (SeclaiError ''Timed out after 60000ms waiting for streaming agent run to complete.'')
   \<and> settled (runStreamingAgentAndWait sample_parse sample_text ''https://api.seclai.com/agents/a/runs/stream'' None
        (Inr \<lparr>status = 422, contentType = Some ''application/json'', textResult = Inr ''{}'',
          jsonResult = Inr (JObj []), body = None\<rparr>) True)
      \<noteq> Inl (SeclaiAPIValidationError ''Validation error'' 422 ''POST''
               ''https://api.seclai.com/agents/a/runs/stream'' (Some ''{}'') (Some (JObj [])))"
proof -
  let ?u = "''https://api.seclai.com/agents/a/runs/stream''"
  let ?r = "\<lparr>status = 422, contentType = Some ''application/json'', textResult = Inr ''{}'',
          jsonResult = Inr (JObj []), body = None\<rparr>"
  have n: "\<not> ok ?r" by (simp add: ok_def)
  have att: "attempt sample_parse ?u (Inr ?r)
      = Inl (SeclaiAPIValidationError ''Validation error'' 422 ''POST'' ?u (Some ''{}'') (Some (JObj [])))"
    using n by (simp add: attempt_def safeText_def safeJson_def)
  have t: "settled (runStreamingAgentAndWait sample_parse sample_text ?u None (Inr ?r) True)
      = Inl (SeclaiError ''Timed out after 60000ms waiting for streaming agent run to complete.'')"
    by (simp only: run_timed_out_failure[OF att] sample_timed_out_error)
  from n t show ?thesis by simp
qed

text \<open>
  C9 (amended): on a response whose status is not a success the function fails; when the
  timeout timer has not fired by then, with the validation error carrying the status,
  \<open>POST\<close>, the URL, the response text and the decoded validation payload if the status is
  422, and otherwise with the status error carrying the status, \<open>POST\<close>, the URL and the
  response text; when the timer has fired, with the timeout error. A text or a JSON body
  that cannot be decoded leaves the field absent and raises nothing.
\<close>

theorem error_status_mapping:
  assumes "\<not> ok r"
  shows "settled (runStreamingAgentAndWait parse toText url timeoutMs (Inr r) timedOut)
           = Inl (if timedOut then timed_out_error toText timeoutMs
                  else if status r = 422 then
                    SeclaiAPIValidationError ''Validation error'' 422 ''POST'' url (safeText r) (safeJson r)
                  else
                    SeclaiAPIStatusError (''Request failed with status '' @ show_nat (status r))
                       (status r) ''POST'' url (safeText r))
     \<and> (case textResult r of Inl e \<Rightarrow> safeText r = None | Inr t \<Rightarrow> safeText r = Some t)
     \<and> (case jsonResult r of Inl e \<Rightarrow> safeJson r = None | Inr v \<Rightarrow> safeJson r = Some v)"
proof -
  have att: "attempt parse url (Inr r)
      = Inl (if status r = 422 then
               SeclaiAPIValidationError ''Validation error'' 422 ''POST'' url (safeText r) (safeJson r)
             else
               SeclaiAPIStatusError (''Request failed with status '' @ show_nat (status r))
                 (status r) ''POST'' url (safeText r))"
    using assms by (simp add: attempt_def Let_def)
  have tfact: "case textResult r of Inl e \<Rightarrow> safeText r = None | Inr t \<Rightarrow> safeText r = Some t"
    by (simp add: safeText_def split: sum.splits)
  have jfact: "case jsonResult r of Inl e \<Rightarrow> safeJson r = None | Inr v \<Rightarrow> safeJson r = Some v"
    by (simp add: safeJson_def split: sum.splits)
  have "settled (runStreamingAgentAndWait parse toText url timeoutMs (Inr r) timedOut)
           = Inl (if timedOut then timed_out_error toText timeoutMs
                  else if status r = 422 then
                    SeclaiAPIValidationError ''Validation error'' 422 ''POST'' url (safeText r) (safeJson r)
                  else
                    SeclaiAPIStatusError (''Request failed with status '' @ show_nat (status r))
                       (status r) ''POST'' url (safeText r))"
    unfolding run_settled att by simp
  with tfact jfact show ?thesis by blast
qed

text \<open>
  A 422 response whose body is neither readable as text nor as JSON, and a 500 response
  with the text \<open>boom\<close>, the timer not fired; and the second with the timer fired.
\<close>

theorem error_status_mapping_witness:
  "\<not> ok \<lparr>status = 422, contentType = None, textResult = Inl (PlatformError ''TypeError''),
          jsonResult = Inl (PlatformError ''SyntaxError''), body = None\<rparr>
   \<and> settled (runStreamingAgentAndWait sample_parse sample_text ''https://api.seclai.com/agents/a/runs/stream'' None
        (Inr \<lparr>status = 422, contentType = None, textResult = Inl (PlatformError ''TypeError''),
          jsonResult = Inl (PlatformError ''SyntaxError''), body = None\<rparr>) False)
      = Inl (SeclaiAPIValidationError ''Validation error'' 422 ''POST''
               ''https://api.seclai.com/agents/a/runs/stream'' None None)
   \<and> \<not> ok \<lparr>status = 500, contentType = Some ''text/plain'', textResult = Inr ''boom'',
          jsonResult = Inl (PlatformError ''SyntaxError''), body = None\<rparr>
   \<and> settled (runStreamingAgentAndWait sample_parse sample_text ''https://api.seclai.com/agents/a/runs/stream'' None
        (Inr \<lparr>status = 500, contentType = Some ''text/plain'', textResult = Inr ''boom'',
          jsonResult = Inl (PlatformError ''SyntaxError''), body = None\<rparr>) False)
      = Inl (SeclaiAPIStatusError ''Request failed with status 500'' 500 ''POST''
               ''https://api.seclai.com/agents/a/runs/stream'' (Some ''boom''))
   \<and> settled (runStreamingAgentAndWait sample_parse sample_text ''https://api.seclai.com/agents/a/runs/stream'' None
        (Inr \<lparr>status = 500, contentType = Some ''text/plain'', textResult = Inr ''boom'',
          jsonResult = Inl (PlatformError ''SyntaxError''), body = None\<rparr>) True)
      = Inl (SeclaiError ''Timed out after 60000ms waiting for streaming agent run to complete.'')"
proof -
  let ?u = "''https://api.seclai.com/agents/a/runs/stream''"
  let ?a = "\<lparr>status = 422, contentType = None, textResult = Inl (PlatformError ''TypeError''),
          jsonResult = Inl (PlatformError ''SyntaxError''), body = None\<rparr>"
  let ?b = "\<lparr>status = 500, contentType = Some ''text/plain'', textResult = Inr ''boom'',
          jsonResult = Inl (PlatformError ''SyntaxError''), body = None\<rparr>"
  have na: "\<not> ok ?a" and nb: "\<not> ok ?b" by (simp_all add: ok_def)
  have n500: "show_nat 500 = ''500''" by (simp add: show_nat.simps)
  have a: "settled (runStreamingAgentAndWait sample_parse sample_text ?u None (Inr ?a) False)
      = Inl (SeclaiAPIValidationError ''Validation error'' 422 ''POST'' ?u None None)"
    using error_status_mapping[OF na, of sample_parse sample_text ?u None False]
    by (simp add: safeText_def safeJson_def)
  have b: "settled (runStreamingAgentAndWait sample_parse sample_text ?u None (Inr ?b) False)
      = Inl (SeclaiAPIStatusError ''Request failed with status 500'' 500 ''POST'' ?u (Some ''boom''))"
    using error_status_mapping[OF nb, of sample_parse sample_text ?u None False]
    by (simp add: safeText_def n500)
  have c: "settled (runStreamingAgentAndWait sample_parse sample_text ?u None (Inr ?b) True)
      = Inl (SeclaiError ''Timed out after 60000ms waiting for streaming agent run to complete.'')"
    using error_status_mapping[OF nb, of sample_parse sample_text ?u None True]
    by (simp add: sample_timed_out_error)
  from na a nb b c show ?thesis by blast
qed

text \<open>
  C5 (as the claim states it, refuted): a response of status 500 has been received and
  the timer fires before the status error is thrown. The failure is the HTTP status error,
  which the function builds from the response and which is no rejection of the request or
  of a read; it does not reach the caller unchanged but as the timeout error.
\<close>

theorem timeout_translation_counterexample:
  "attempt sample_parse ''https://api.seclai.com/agents/a/runs/stream''
        (Inr \<lparr>status = 500, contentType = Some ''text/plain'', textResult = Inr ''boom'',
          jsonResult = Inl (PlatformError ''SyntaxError''), body = None\<rparr>)
      = Inl (SeclaiAPIStatusError ''Request failed with status 500'' 500 ''POST''
               ''https://api.seclai.com/agents/a/runs/stream'' (Some ''boom''))
   \<and> \<not> raised_by_transport
        (Inr \<lparr>status = 500, contentType = Some ''text/plain'', textResult = Inr ''boom'',
          jsonResult = Inl (PlatformError ''SyntaxError''), body = None\<rparr>)
        (SeclaiAPIStatusError ''Request failed with status 500'' 500 ''POST''
               ''https://api.seclai.com/agents/a/runs/stream'' (Some ''boom''))
   \<and> settled (runStreamingAgentAndWait sample_parse sample_text ''https://api.seclai.com/agents/a/runs/stream'' None
        (Inr \<lparr>status = 500, contentType = Some ''text/plain'', textResult = Inr ''boom'',
          jsonResult = Inl (PlatformError ''SyntaxError''), body = None\<rparr>) True)
      = Inl (SeclaiError ''Timed out after 60000ms waiting for streaming agent run to complete.'')"
proof -
  let ?u = "''https://api.seclai.com/agents/a/runs/stream''"
  let ?b = "\<lparr>status = 500, contentType = Some ''text/plain'', textResult = Inr ''boom'',
          jsonResult = Inl (PlatformError ''SyntaxError''), body = None\<rparr>"
  have n500: "show_nat 500 = ''500''" by (simp add: show_nat.simps)
  have att: "attempt sample_parse ?u (Inr ?b)
      = Inl (SeclaiAPIStatusError ''Request failed with status 500'' 500 ''POST'' ?u (Some ''boom''))"
    by (simp add: attempt_def ok_def safeText_def n500)
  have nt: "\<not> raised_by_transport (Inr ?b)
        (SeclaiAPIStatusError ''Request failed with status 500'' 500 ''POST'' ?u (Some ''boom''))"
    by (simp add: raised_by_transport_def)
  have t: "settled (runStreamingAgentAndWait sample_parse sample_text ?u None (Inr ?b) True)
      = Inl (SeclaiError ''Timed out after 60000ms waiting for streaming agent run to complete.'')"
    by (simp only: run_timed_out_failure[OF att] sample_timed_out_error)
  from att nt t show ?thesis by blast
qed

text \<open>
  C5 (amended): when the body of the function fails and the \<open>timedOut\<close> flag is set by then
  (the timer has fired), the failure, whatever it is, is replaced by the timeout error
  naming \<open>timeoutMs\<close> as the template literal prints it (60000 when none is given); when it
  fails and the timer has not fired, the error reaches the caller unchanged, whatever it
  is; a success is returned as it is, timer fired or not; and on every outcome the timer
  is no longer pending when the function settles.
\<close>

theorem timeout_translation:
  "(attempt parse url fetched = Inl err \<and> timedOut \<longrightarrow>
      settled (runStreamingAgentAndWait parse toText url timeoutMs fetched timedOut)
        = Inl (SeclaiError (''Timed out after ''
                 @ toText (case timeoutMs of None \<Rightarrow> Finite 60000 | Some t \<Rightarrow> t)
                 @ ''ms waiting for streaming agent run to complete.'')))
   \<and> (attempt parse url fetched = Inl err \<and> \<not> timedOut \<longrightarrow>
      settled (runStreamingAgentAndWait parse toText url timeoutMs fetched timedOut) = Inl err)
   \<and> (attempt parse url fetched = Inr v \<longrightarrow>
      settled (runStreamingAgentAndWait parse toText url timeoutMs fetched timedOut) = Inr v)
   \<and> timeoutTimer (runStreamingAgentAndWait parse toText url timeoutMs fetched timedOut) \<noteq> TimerPending"
proof (intro conjI impI)
  assume "attempt parse url fetched = Inl err \<and> timedOut"
  then show "settled (runStreamingAgentAndWait parse toText url timeoutMs fetched timedOut)
        = Inl (SeclaiError (''Timed out after ''
                 @ toText (case timeoutMs of None \<Rightarrow> Finite 60000 | Some t \<Rightarrow> t)
                 @ ''ms waiting for streaming agent run to complete.''))"
    by (simp add: run_settled timed_out_error_def)
next
  assume "attempt parse url fetched = Inl err \<and> \<not> timedOut"
  then show "settled (runStreamingAgentAndWait parse toText url timeoutMs fetched timedOut) = Inl err"
    by (simp add: run_settled)
next
  assume "attempt parse url fetched = Inr v"
  then show "settled (runStreamingAgentAndWait parse toText url timeoutMs fetched timedOut) = Inr v"
    by (simp add: run_settled)
next
  show "timeoutTimer (runStreamingAgentAndWait parse toText url timeoutMs fetched timedOut) \<noteq> TimerPending"
    by (cases timedOut) (simp_all add: runStreamingAgentAndWait_def Let_def)
qed

text \<open>
  A \<open>fetch\<close> rejected by the abort: with the timer fired and no \<open>timeoutMs\<close> given the caller
  gets the timeout error naming 60000 ms, and naming 5 ms when \<open>timeoutMs\<close> is 5; with the
  timer not fired (the caller's own signal) the abort error itself.
\<close>

theorem timeout_translation_witness:
  "attempt sample_parse ''https://api.seclai.com/agents/a/runs/stream'' (Inl (PlatformError ''AbortError''))
     = Inl (PlatformError ''AbortError'')
   \<and> settled (runStreamingAgentAndWait sample_parse sample_text ''https://api.seclai.com/agents/a/runs/stream'' None
        (Inl (PlatformError ''AbortError'')) True)
     = Inl (SeclaiError ''Timed out after 60000ms waiting for streaming agent run to complete.'')
   \<and> settled (runStreamingAgentAndWait sample_parse sample_text ''https://api.seclai.com/agents/a/runs/stream''
        (Some (Finite 5)) (Inl (PlatformError ''AbortError'')) True)
     = Inl (SeclaiError ''Timed out after 5ms waiting for streaming agent run to complete.'')
   \<and> settled (runStreamingAgentAndWait sample_parse sample_text ''https://api.seclai.com/agents/a/runs/stream'' None
        (Inl (PlatformError ''AbortError'')) False)
     = Inl (PlatformError ''AbortError'')"
proof -
  let ?u = "''https://api.seclai.com/agents/a/runs/stream''"
  let ?e = "PlatformError ''AbortError''"
  have att: "attempt sample_parse ?u (Inl ?e) = Inl ?e"
    unfolding attempt_def by (simp only: sum.case)
  have m60: "''Timed out after '' @ sample_text (case None of None \<Rightarrow> Finite 60000 | Some t \<Rightarrow> t)
               @ ''ms waiting for streaming agent run to complete.''
           = ''Timed out after 60000ms waiting for streaming agent run to complete.''"
    by (simp add: sample_text_def)
  have m5: "''Timed out after '' @ sample_text (case Some (Finite 5) of None \<Rightarrow> Finite 60000 | Some t \<Rightarrow> t)
               @ ''ms waiting for streaming agent run to complete.''
           = ''Timed out after 5ms waiting for streaming agent run to complete.''"
    by (simp add: sample_text_def)
  from timeout_translation[of sample_parse ?u "Inl ?e" ?e True sample_text None] att
  have "settled (runStreamingAgentAndWait sample_parse sample_text ?u None (Inl ?e) True)
     = Inl (SeclaiError (''Timed out after '' @ sample_text (case None of None \<Rightarrow> Finite 60000 | Some t \<Rightarrow> t)
               @ ''ms waiting for streaming agent run to complete.''))"
    by blast
  then have t: "settled (runStreamingAgentAndWait sample_parse sample_text ?u None (Inl ?e) True)
     = Inl (SeclaiError ''Timed out after 60000ms waiting for streaming agent run to complete.'')"
    by (simp only: m60)
  from timeout_translation[of sample_parse ?u "Inl ?e" ?e True sample_text "Some (Finite 5)"] att
  have "settled (runStreamingAgentAndWait sample_parse sample_text ?u (Some (Finite 5)) (Inl ?e) True)
     = Inl (SeclaiError (''Timed out after '' @ sample_text (case Some (Finite 5) of None \<Rightarrow> Finite 60000 | Some t \<Rightarrow> t)
               @ ''ms waiting for streaming agent run to complete.''))"
    by blast
  then have t5: "settled (runStreamingAgentAndWait sample_parse sample_text ?u (Some (Finite 5)) (Inl ?e) True)
     = Inl (SeclaiError ''Timed out after 5ms waiting for streaming agent run to complete.'')"
    by (simp only: m5)
  from timeout_translation[of sample_parse ?u "Inl ?e" ?e False sample_text None] att
  have f: "settled (runStreamingAgentAndWait sample_parse sample_text ?u None (Inl ?e) False) = Inl ?e"
    by blast
  from att t t5 f show ?thesis by blast
qed








end
